theory Spec2Isabelle
  imports Complex_Main
begin

section \<open>The elevation profile service of streamProfile (src/src/App.jsx)\<close>

text \<open>
  The class \<open>ElevationProfileService\<close> turns the polyline of a selected stream into a
  sampled, distance-annotated elevation series. Its methods are embedded here as HOL
  functions, one per method, with the method's name.

  Conventions of the embedding.
  \<^item> A JavaScript number is a binary64 value: \<open>NaN\<close>, an infinity, or \<open>Fin r\<close> with the
    real \<open>r\<close> it stands for. The operators \<open>+ - * /\<close> round the result on the reals to the
    nearest binary64 value, ties to even (\<open>fl\<close>), and so does \<open>Math.sqrt\<close>, which the
    engines compute with the IEEE 754 operation. The two zeros are not told apart: no
    expression of the service divides by a variable or takes \<open>Math.atan2\<close> of a negative
    zero.
  \<^item> \<open>Math.sin\<close>, \<open>Math.cos\<close> and \<open>Math.atan2\<close> are implementation-approximated in
    ECMAScript: what the language fixes of them is written out, the rest is a parameter
    of the runtime.
  \<^item> A coordinate is the pair \<open>(longitude, latitude)\<close>, as \<open>coord[0]\<close> and \<open>coord[1]\<close>,
    of two finite numbers, each held as the real it stands for; a coordinate sequence is
    a list of such pairs, as the map hands them over; an array with an entry that is no
    pair of numbers is not an input of the model.
  \<^item> A value decoded from a provider's JSON answer is a \<open>jsval\<close>; the code probes it
    property by property, so property access, truthiness and the conversion to a number are
    written out.
  \<^item> An exception is a value of type \<open>error\<close>; a method that may throw returns
    \<open>error + 'a\<close>.
  \<^item> The network is a parameter: a function from the requests issued so far and the
    present request to the outcome of \<open>fetch\<close>. Every method that calls \<open>fetch\<close> takes the
    list of requests issued so far and returns it extended. The pause of 100 ms after a
    point query (line 95) has no effect on any value and is left out.
\<close>

subsection \<open>Numbers\<close>

datatype jsnum = NaN | Fin real | PosInf | NegInf

text \<open>
  Rounding to binary64. \<open>expo x\<close> is the exponent of the binade of \<open>x\<close>, not below that
  of the subnormal numbers; the values of that binade are the multiples of
  \<open>pow2 (expo x - 52)\<close>, and \<open>fl x\<close> is the nearest of them, the even one of two that are
  equally near, or an infinity from \<open>2^1024\<close> on.
\<close>

definition pow2 :: "int \<Rightarrow> real" where
  "pow2 e = (if 0 \<le> e then 2 ^ nat e else 1 / 2 ^ nat (- e))"

definition round_even :: "real \<Rightarrow> int" where
  "round_even y =
     (let f = \<lfloor>y\<rfloor>; d = y - of_int f
      in if d < 1 / 2 then f else if 1 / 2 < d then f + 1 else if even f then f else f + 1)"

definition expo :: "real \<Rightarrow> int" where
  "expo x = max (- 1022) \<lfloor>log 2 \<bar>x\<bar>\<rfloor>"

definition fl :: "real \<Rightarrow> jsnum" where
  "fl x =
     (if x = 0 then Fin 0
      else
        let q = pow2 (expo x - 52);
            r = of_int (round_even (x / q)) * q
        in if pow2 1024 \<le> \<bar>r\<bar> then (if 0 < x then PosInf else NegInf) else Fin r)"

text \<open>
  The representable numbers: an integer below \<open>2^53\<close> in absolute value times a power of
  two from \<open>2^-1074\<close> on.
\<close>

definition is_double :: "real \<Rightarrow> bool" where
  "is_double x \<longleftrightarrow> (\<exists>m e. x = of_int m * pow2 e \<and> \<bar>m\<bar> < 2 ^ 53 \<and> - 1074 \<le> e)"

definition num_neg :: "jsnum \<Rightarrow> jsnum" where
  "num_neg a = (case a of NaN \<Rightarrow> NaN | Fin x \<Rightarrow> Fin (- x) | PosInf \<Rightarrow> NegInf | NegInf \<Rightarrow> PosInf)"

definition num_sub :: "jsnum \<Rightarrow> jsnum \<Rightarrow> jsnum" where
  "num_sub a b =
     (case a of
        NaN \<Rightarrow> NaN
      | Fin x \<Rightarrow> (case b of NaN \<Rightarrow> NaN | Fin y \<Rightarrow> fl (x - y) | PosInf \<Rightarrow> NegInf | NegInf \<Rightarrow> PosInf)
      | PosInf \<Rightarrow> (case b of NaN \<Rightarrow> NaN | Fin y \<Rightarrow> PosInf | PosInf \<Rightarrow> NaN | NegInf \<Rightarrow> PosInf)
      | NegInf \<Rightarrow> (case b of NaN \<Rightarrow> NaN | Fin y \<Rightarrow> NegInf | PosInf \<Rightarrow> NegInf | NegInf \<Rightarrow> NaN))"

definition num_add :: "jsnum \<Rightarrow> jsnum \<Rightarrow> jsnum" where
  "num_add a b =
     (case a of
        NaN \<Rightarrow> NaN
      | Fin x \<Rightarrow> (case b of NaN \<Rightarrow> NaN | Fin y \<Rightarrow> fl (x + y) | PosInf \<Rightarrow> PosInf | NegInf \<Rightarrow> NegInf)
      | PosInf \<Rightarrow> (case b of NaN \<Rightarrow> NaN | Fin y \<Rightarrow> PosInf | PosInf \<Rightarrow> PosInf | NegInf \<Rightarrow> NaN)
      | NegInf \<Rightarrow> (case b of NaN \<Rightarrow> NaN | Fin y \<Rightarrow> NegInf | PosInf \<Rightarrow> NaN | NegInf \<Rightarrow> NegInf))"

text \<open>The sign of an infinite product or quotient; \<open>0\<close> times an infinity is \<open>NaN\<close>.\<close>

definition signed_inf :: "real \<Rightarrow> jsnum" where
  "signed_inf s = (if s = 0 then NaN else if 0 < s then PosInf else NegInf)"

definition num_mul :: "jsnum \<Rightarrow> jsnum \<Rightarrow> jsnum" where
  "num_mul a b =
     (case a of
        NaN \<Rightarrow> NaN
      | Fin x \<Rightarrow>
          (case b of
             NaN \<Rightarrow> NaN
           | Fin y \<Rightarrow> fl (x * y)
           | PosInf \<Rightarrow> signed_inf x
           | NegInf \<Rightarrow> signed_inf (- x))
      | PosInf \<Rightarrow>
          (case b of NaN \<Rightarrow> NaN | Fin y \<Rightarrow> signed_inf y | PosInf \<Rightarrow> PosInf | NegInf \<Rightarrow> NegInf)
      | NegInf \<Rightarrow>
          (case b of NaN \<Rightarrow> NaN | Fin y \<Rightarrow> signed_inf (- y) | PosInf \<Rightarrow> NegInf | NegInf \<Rightarrow> PosInf))"

text \<open>A divisor that is zero is taken as the positive zero.\<close>

definition num_div :: "jsnum \<Rightarrow> jsnum \<Rightarrow> jsnum" where
  "num_div a b =
     (case a of
        NaN \<Rightarrow> NaN
      | Fin x \<Rightarrow>
          (case b of
             NaN \<Rightarrow> NaN
           | Fin y \<Rightarrow> if y = 0 then signed_inf x else fl (x / y)
           | PosInf \<Rightarrow> Fin 0
           | NegInf \<Rightarrow> Fin 0)
      | PosInf \<Rightarrow>
          (case b of
             NaN \<Rightarrow> NaN
           | Fin y \<Rightarrow> if 0 \<le> y then PosInf else NegInf
           | PosInf \<Rightarrow> NaN
           | NegInf \<Rightarrow> NaN)
      | NegInf \<Rightarrow>
          (case b of
             NaN \<Rightarrow> NaN
           | Fin y \<Rightarrow> if 0 \<le> y then NegInf else PosInf
           | PosInf \<Rightarrow> NaN
           | NegInf \<Rightarrow> NaN))"

definition num_abs :: "jsnum \<Rightarrow> jsnum" where
  "num_abs a = (case a of NaN \<Rightarrow> NaN | Fin x \<Rightarrow> Fin \<bar>x\<bar> | PosInf \<Rightarrow> PosInf | NegInf \<Rightarrow> PosInf)"

text \<open>The comparisons \<open>a < b\<close> and \<open>a <= b\<close> of two numbers; both are false on \<open>NaN\<close>.\<close>

definition num_less :: "jsnum \<Rightarrow> jsnum \<Rightarrow> bool" where
  "num_less a b =
     (case a of
        NaN \<Rightarrow> False
      | Fin x \<Rightarrow> (case b of NaN \<Rightarrow> False | Fin y \<Rightarrow> x < y | PosInf \<Rightarrow> True | NegInf \<Rightarrow> False)
      | PosInf \<Rightarrow> False
      | NegInf \<Rightarrow> (case b of NaN \<Rightarrow> False | Fin y \<Rightarrow> True | PosInf \<Rightarrow> True | NegInf \<Rightarrow> False))"

definition num_le :: "jsnum \<Rightarrow> jsnum \<Rightarrow> bool" where
  "num_le a b = (a \<noteq> NaN \<and> b \<noteq> NaN \<and> (num_less a b \<or> a = b))"

text \<open>\<open>Math.min\<close> and \<open>Math.max\<close> of two numbers: \<open>NaN\<close> if either is.\<close>

definition num_min2 :: "jsnum \<Rightarrow> jsnum \<Rightarrow> jsnum" where
  "num_min2 a b = (if a = NaN \<or> b = NaN then NaN else if num_less b a then b else a)"

definition num_max2 :: "jsnum \<Rightarrow> jsnum \<Rightarrow> jsnum" where
  "num_max2 a b = (if a = NaN \<or> b = NaN then NaN else if num_less a b then b else a)"

subsection \<open>Coordinates\<close>

type_synonym coord = "real \<times> real"

subsection \<open>JavaScript values\<close>

text \<open>
  \<open>JObj\<close> holds the properties of a decoded object, each key once, and \<open>JArr\<close> the
  elements of an array.
\<close>

datatype jsval =
    JUndefined
  | JNull
  | JBool bool
  | JNum jsnum
  | JStr string
  | JArr "jsval list"
  | JObj "(string \<times> jsval) list"

datatype error =
    InvalidCoordinates
  | UsgsHttpError coord nat
  | UsgsApiError coord jsval
  | OpenElevationHttpError nat
  | AllSourcesFailed
  | TypeError
  | FetchFailed
  | JsonSyntaxError

text \<open>
  \<open>InvalidCoordinates\<close> is \<open>Error("Invalid coordinates: need at least 2 points")\<close>,
  \<open>AllSourcesFailed\<close> is \<open>Error("Failed to get elevation data from all sources. Please
  try again.")\<close>; \<open>FetchFailed\<close> is a rejected \<open>fetch\<close> and \<open>JsonSyntaxError\<close> a rejected
  \<open>response.json()\<close>.
\<close>

definition bindE :: "error + 'a \<Rightarrow> ('a \<Rightarrow> error + 'b) \<Rightarrow> error + 'b" where
  "bindE r f = (case r of Inl e \<Rightarrow> Inl e | Inr x \<Rightarrow> f x)"

text \<open>
  The parameters of the JavaScript runtime: the conversions of text into numbers
  (\<open>ToNumber\<close> on a string, an array or an object, and \<open>parseFloat\<close>), and the values of
  \<open>Math.sin\<close> and \<open>Math.cos\<close> at a finite argument other than 0 and of \<open>Math.atan2\<close>
  where the language leaves them to the implementation.
\<close>

record runtime =
  coerce :: "jsval \<Rightarrow> jsnum"
  parseFloat :: "string \<Rightarrow> jsnum"
  sin_impl :: "real \<Rightarrow> jsnum"
  cos_impl :: "real \<Rightarrow> jsnum"
  atan2_impl :: "jsnum \<Rightarrow> jsnum \<Rightarrow> jsnum"

definition toNumber :: "runtime \<Rightarrow> jsval \<Rightarrow> jsnum" where
  "toNumber rt v =
     (case v of
        JUndefined \<Rightarrow> NaN
      | JNull \<Rightarrow> Fin 0
      | JBool b \<Rightarrow> Fin (if b then 1 else 0)
      | JNum n \<Rightarrow> n
      | JStr s \<Rightarrow> coerce rt v
      | JArr xs \<Rightarrow> coerce rt v
      | JObj kvs \<Rightarrow> coerce rt v)"

definition truthy :: "jsval \<Rightarrow> bool" where
  "truthy v =
     (case v of
        JUndefined \<Rightarrow> False
      | JNull \<Rightarrow> False
      | JBool b \<Rightarrow> b
      | JNum n \<Rightarrow> n \<noteq> NaN \<and> n \<noteq> Fin 0
      | JStr s \<Rightarrow> s \<noteq> []
      | JArr xs \<Rightarrow> True
      | JObj kvs \<Rightarrow> True)"

text \<open>
  \<open>v.k\<close> for the property names the code reads (none of them is inherited from a
  prototype): a \<open>TypeError\<close> on \<open>undefined\<close> and \<open>null\<close>, \<open>undefined\<close> where the property is
  missing.
\<close>

definition getProp :: "jsval \<Rightarrow> string \<Rightarrow> error + jsval" where
  "getProp v k =
     (case v of
        JUndefined \<Rightarrow> Inl TypeError
      | JNull \<Rightarrow> Inl TypeError
      | JBool b \<Rightarrow> Inr JUndefined
      | JNum n \<Rightarrow> Inr JUndefined
      | JStr s \<Rightarrow> Inr (if k = ''length'' then JNum (Fin (real (length s))) else JUndefined)
      | JArr xs \<Rightarrow> Inr (if k = ''length'' then JNum (Fin (real (length xs))) else JUndefined)
      | JObj kvs \<Rightarrow> Inr (case map_of kvs k of None \<Rightarrow> JUndefined | Some x \<Rightarrow> x))"

text \<open>
  \<open>v.k\<close> where the access cannot throw: \<open>v\<close> has just been found truthy, or a property
  of \<open>v\<close> has been read before.
\<close>

definition propOf :: "jsval \<Rightarrow> string \<Rightarrow> jsval" where
  "propOf v k = (case getProp v k of Inl e \<Rightarrow> JUndefined | Inr x \<Rightarrow> x)"

text \<open>\<open>v[0]\<close> on a truthy value.\<close>

definition index0 :: "jsval \<Rightarrow> jsval" where
  "index0 v =
     (case v of
        JArr xs \<Rightarrow> (case xs of [] \<Rightarrow> JUndefined | x # rest \<Rightarrow> x)
      | JStr s \<Rightarrow> (case s of [] \<Rightarrow> JUndefined | c # rest \<Rightarrow> JStr [c])
      | JObj kvs \<Rightarrow> propOf v ''0''
      | JUndefined \<Rightarrow> JUndefined
      | JNull \<Rightarrow> JUndefined
      | JBool b \<Rightarrow> JUndefined
      | JNum n \<Rightarrow> JUndefined)"

subsection \<open>Geodesic distance (lines 38-70)\<close>

text \<open>\<open>Math.PI\<close>, the binary64 value \<open>3.141592653589793\<close>.\<close>

definition Math_PI :: real where
  "Math_PI = 884279719003555 / 2 ^ 48"

text \<open>
  \<open>Math.sin\<close> and \<open>Math.cos\<close> are \<open>NaN\<close> on \<open>NaN\<close> and on the infinities, and 0 and 1 at 0.
  \<open>Math.sqrt\<close> is \<open>NaN\<close> below zero and correctly rounded otherwise. \<open>Math.atan2(y, x)\<close>
  is \<open>NaN\<close> if an argument is, and 0 for \<open>y\<close> zero and \<open>x\<close> not negative.
\<close>

definition Math_sin :: "runtime \<Rightarrow> jsnum \<Rightarrow> jsnum" where
  "Math_sin rt x =
     (case x of
        NaN \<Rightarrow> NaN
      | Fin r \<Rightarrow> if r = 0 then Fin 0 else sin_impl rt r
      | PosInf \<Rightarrow> NaN
      | NegInf \<Rightarrow> NaN)"

definition Math_cos :: "runtime \<Rightarrow> jsnum \<Rightarrow> jsnum" where
  "Math_cos rt x =
     (case x of
        NaN \<Rightarrow> NaN
      | Fin r \<Rightarrow> if r = 0 then Fin 1 else cos_impl rt r
      | PosInf \<Rightarrow> NaN
      | NegInf \<Rightarrow> NaN)"

definition Math_sqrt :: "jsnum \<Rightarrow> jsnum" where
  "Math_sqrt x =
     (case x of
        NaN \<Rightarrow> NaN
      | Fin r \<Rightarrow> if r < 0 then NaN else fl (sqrt r)
      | PosInf \<Rightarrow> PosInf
      | NegInf \<Rightarrow> NaN)"

definition Math_atan2 :: "runtime \<Rightarrow> jsnum \<Rightarrow> jsnum \<Rightarrow> jsnum" where
  "Math_atan2 rt y x =
     (if y = NaN \<or> x = NaN then NaN
      else if y = Fin 0 \<and> num_le (Fin 0) x then Fin 0
      else atan2_impl rt y x)"

text \<open>
  A runtime is taken as sound if \<open>Math.sin\<close> is odd, \<open>Math.cos\<close> is a number
  between -1 and 1, and \<open>Math.atan2\<close> of two arguments that are not negative is not
  negative.
\<close>

definition libm_ok :: "runtime \<Rightarrow> bool" where
  "libm_ok rt \<longleftrightarrow>
     (\<forall>r. sin_impl rt (- r) = num_neg (sin_impl rt r))
     \<and> (\<forall>r. \<exists>c. cos_impl rt r = Fin c \<and> \<bar>c\<bar> \<le> 1)
     \<and> (\<forall>y x. num_le (Fin 0) y \<and> num_le (Fin 0) x \<longrightarrow> num_le (Fin 0) (atan2_impl rt y x))"

text \<open>The quantity \<open>a\<close> of \<open>haversineDistance\<close> (lines 40-50).\<close>

definition haversine_a :: "runtime \<Rightarrow> coord \<Rightarrow> coord \<Rightarrow> jsnum" where
  "haversine_a rt coord1 coord2 =
     (let lat1 = num_div (num_mul (Fin (snd coord1)) (Fin Math_PI)) (Fin 180);
          lat2 = num_div (num_mul (Fin (snd coord2)) (Fin Math_PI)) (Fin 180);
          deltaLat =
            num_div (num_mul (num_sub (Fin (snd coord2)) (Fin (snd coord1))) (Fin Math_PI)) (Fin 180);
          deltaLng =
            num_div (num_mul (num_sub (Fin (fst coord2)) (Fin (fst coord1))) (Fin Math_PI)) (Fin 180)
      in num_add
           (num_mul (Math_sin rt (num_div deltaLat (Fin 2))) (Math_sin rt (num_div deltaLat (Fin 2))))
           (num_mul
              (num_mul (num_mul (Math_cos rt lat1) (Math_cos rt lat2))
                 (Math_sin rt (num_div deltaLng (Fin 2))))
              (Math_sin rt (num_div deltaLng (Fin 2)))))"

definition haversineDistance :: "runtime \<Rightarrow> coord \<Rightarrow> coord \<Rightarrow> jsnum" where
  "haversineDistance rt coord1 coord2 =
     (let R = Fin 6371000;
          a = haversine_a rt coord1 coord2;
          c = num_mul (Fin 2) (Math_atan2 rt (Math_sqrt a) (Math_sqrt (num_sub (Fin 1) a)))
      in num_mul R c)"

text \<open>
  The loop of \<open>calculateCumulativeDistances\<close>, from \<open>i = 1\<close>: \<open>prev\<close> is
  \<open>coordinates[i - 1]\<close>. The array starts as \<open>[0]\<close> whatever the input is.
\<close>

fun cumulative_loop :: "runtime \<Rightarrow> coord \<Rightarrow> coord list \<Rightarrow> jsnum \<Rightarrow> jsnum list" where
  "cumulative_loop rt prev [] totalDistance = []"
| "cumulative_loop rt prev (c # cs) totalDistance =
     (let totalDistance' = num_add totalDistance (haversineDistance rt prev c)
      in totalDistance' # cumulative_loop rt c cs totalDistance')"

definition calculateCumulativeDistances :: "runtime \<Rightarrow> coord list \<Rightarrow> jsnum list" where
  "calculateCumulativeDistances rt coordinates =
     Fin 0 # (case coordinates of [] \<Rightarrow> [] | c # cs \<Rightarrow> cumulative_loop rt c cs (Fin 0))"

subsection \<open>Sampling (lines 76-80 and 187-191)\<close>

definition maxPoints :: nat where
  "maxPoints = 50"

definition sample_step :: "'a list \<Rightarrow> nat" where
  "sample_step coordinates = max 1 (length coordinates div maxPoints)"

text \<open>\<open>coordinates.filter((_, index) => index % step === 0)\<close>.\<close>

definition sampleCoords :: "'a list \<Rightarrow> 'a list" where
  "sampleCoords coordinates =
     map snd (filter (\<lambda>(index, c). index mod sample_step coordinates = 0)
                     (enumerate 0 coordinates))"

subsection \<open>The network\<close>

text \<open>
  A request is a point query to the USGS 3DEP service or a batch query to Open Elevation
  with its list of \<open>(latitude, longitude)\<close> locations. The outcome of \<open>fetch\<close> is a rejection
  or a response with its status and its body as \<open>response.json()\<close> decodes it (\<open>None\<close>
  when it is not JSON).
\<close>

datatype request = UsgsIdentify coord | OpenElevationLookup "(real \<times> real) list"

datatype http_outcome = FetchRejected | Response nat "jsval option"

type_synonym network = "request list \<Rightarrow> request \<Rightarrow> http_outcome"

definition response_ok :: "nat \<Rightarrow> bool" where
  "response_ok status = (200 \<le> status \<and> status \<le> 299)"

subsection \<open>The primary provider (lines 73-182)\<close>

text \<open>
  Lines 154-181 of \<open>getSingleElevationUSGS3DEP\<close>: what the method makes of the decoded
  body \<open>data\<close>.
\<close>

definition usgs_elevation_of :: "runtime \<Rightarrow> coord \<Rightarrow> jsval \<Rightarrow> error + jsval" where
  "usgs_elevation_of rt coordinate data =
     bindE (getProp data ''error'') (\<lambda>err.
       if truthy err then Inl (UsgsApiError coordinate (propOf err ''message''))
       else
         let value = propOf data ''value''; catalogItems = propOf data ''catalogItems'' in
         if value \<noteq> JUndefined \<and> value \<noteq> JNull then Inr value
         else if truthy catalogItems \<and> truthy (propOf catalogItems ''features'') \<and>
                 num_less (Fin 0) (toNumber rt (propOf (propOf catalogItems ''features'') ''length''))
         then
           bindE (getProp (index0 (propOf catalogItems ''features'')) ''attributes'') (\<lambda>attributes.
             if truthy attributes \<and> propOf attributes ''Pixel_Value'' \<noteq> JUndefined
             then Inr (propOf attributes ''Pixel_Value'')
             else Inr (JNum (Fin 0)))
         else if propOf data ''name'' = JStr ''Pixel'' \<and> truthy value
         then
           (case value of
              JStr s \<Rightarrow>
                (let parsed = parseFloat rt (takeWhile (\<lambda>c. c \<noteq> CHR '' '') s)
                 in Inr (JNum (if parsed = NaN \<or> parsed = Fin 0 then Fin 0 else parsed)))
            | JUndefined \<Rightarrow> Inr value
            | JNull \<Rightarrow> Inr value
            | JBool b \<Rightarrow> Inr value
            | JNum n \<Rightarrow> Inr value
            | JArr xs \<Rightarrow> Inr value
            | JObj kvs \<Rightarrow> Inr value)
         else Inr (JNum (Fin 0)))"

definition getSingleElevationUSGS3DEP ::
    "runtime \<Rightarrow> network \<Rightarrow> request list \<Rightarrow> coord \<Rightarrow> (error + jsval) \<times> request list" where
  "getSingleElevationUSGS3DEP rt net tr coordinate =
     (let req = UsgsIdentify coordinate in
      (case net tr req of
         FetchRejected \<Rightarrow> Inl FetchFailed
       | Response status body \<Rightarrow>
           if \<not> response_ok status then Inl (UsgsHttpError coordinate status)
           else (case body of
                   None \<Rightarrow> Inl JsonSyntaxError
                 | Some data \<Rightarrow> usgs_elevation_of rt coordinate data),
       tr @ [req]))"

text \<open>
  The loop of lines 89-101 over the sampled coordinates: an exception of the point query
  is caught and 0 is pushed in place of the elevation.
\<close>

fun usgs_loop ::
    "runtime \<Rightarrow> network \<Rightarrow> request list \<Rightarrow> coord list \<Rightarrow> jsval list \<times> request list" where
  "usgs_loop rt net tr [] = ([], tr)"
| "usgs_loop rt net tr (coord # rest) =
     (let (r, tr1) = getSingleElevationUSGS3DEP rt net tr coord;
          elevation = (case r of Inl e \<Rightarrow> JNum (Fin 0) | Inr v \<Rightarrow> v);
          (more, tr2) = usgs_loop rt net tr1 rest
      in (elevation # more, tr2))"

record elevation_point =
  longitude :: real
  latitude :: real
  elevation :: jsval
  distance :: jsnum
  distanceKm :: jsnum

definition getElevationFromUSGS3DEP ::
    "runtime \<Rightarrow> network \<Rightarrow> request list \<Rightarrow> coord list
     \<Rightarrow> (error + elevation_point list) \<times> request list" where
  "getElevationFromUSGS3DEP rt net tr coordinates =
     (let sampledCoords = sampleCoords coordinates;
          (allElevationData, tr') = usgs_loop rt net tr sampledCoords;
          distances = calculateCumulativeDistances rt sampledCoords;
          elevationData =
            map (\<lambda>(index, coord).
                   \<lparr> longitude = fst coord,
                     latitude = snd coord,
                     elevation = allElevationData ! index,
                     distance = distances ! index,
                     distanceKm = num_div (distances ! index) (Fin 1000) \<rparr>)
                (enumerate 0 sampledCoords)
      in (Inr elevationData, tr'))"

subsection \<open>The fallback provider (lines 185-236)\<close>

text \<open>
  \<open>data.results.map((result, index) => ...)\<close>: \<open>sampledCoords[index][0]\<close> throws a
  \<open>TypeError\<close> once \<open>index\<close> is beyond the sampled coordinates, and \<open>result.elevation\<close>
  throws one on a result that is \<open>null\<close>.
\<close>

fun open_elevation_points ::
    "coord list \<Rightarrow> jsnum list \<Rightarrow> nat \<Rightarrow> jsval list \<Rightarrow> error + elevation_point list" where
  "open_elevation_points sampledCoords distances index [] = Inr []"
| "open_elevation_points sampledCoords distances index (result # rest) =
     (if length sampledCoords \<le> index then Inl TypeError
      else
        bindE (getProp result ''elevation'') (\<lambda>e.
        bindE (open_elevation_points sampledCoords distances (Suc index) rest) (\<lambda>more.
          Inr (\<lparr> longitude = fst (sampledCoords ! index),
                 latitude = snd (sampledCoords ! index),
                 elevation = e,
                 distance = distances ! index,
                 distanceKm = num_div (distances ! index) (Fin 1000) \<rparr> # more))))"

definition getElevationFromOpenElevation ::
    "runtime \<Rightarrow> network \<Rightarrow> request list \<Rightarrow> coord list
     \<Rightarrow> (error + elevation_point list) \<times> request list" where
  "getElevationFromOpenElevation rt net tr coordinates =
     (let sampledCoords = sampleCoords coordinates;
          locations = map (\<lambda>coord. (snd coord, fst coord)) sampledCoords;
          req = OpenElevationLookup locations
      in
      (case net tr req of
         FetchRejected \<Rightarrow> Inl FetchFailed
       | Response status body \<Rightarrow>
           if \<not> response_ok status then Inl (OpenElevationHttpError status)
           else (case body of
                   None \<Rightarrow> Inl JsonSyntaxError
                 | Some data \<Rightarrow>
                     (let distances = calculateCumulativeDistances rt sampledCoords in
                      bindE (getProp data ''results'') (\<lambda>results.
                        case results of
                          JArr rs \<Rightarrow> open_elevation_points sampledCoords distances 0 rs
                        | JUndefined \<Rightarrow> Inl TypeError
                        | JNull \<Rightarrow> Inl TypeError
                        | JBool b \<Rightarrow> Inl TypeError
                        | JNum n \<Rightarrow> Inl TypeError
                        | JStr s \<Rightarrow> Inl TypeError
                        | JObj kvs \<Rightarrow> Inl TypeError))),
       tr @ [req]))"

subsection \<open>Statistics (lines 263-304)\<close>

definition Math_min :: "runtime \<Rightarrow> jsval list \<Rightarrow> jsnum" where
  "Math_min rt vs = foldl num_min2 PosInf (map (toNumber rt) vs)"

definition Math_max :: "runtime \<Rightarrow> jsval list \<Rightarrow> jsnum" where
  "Math_max rt vs = foldl num_max2 NegInf (map (toNumber rt) vs)"

text \<open>
  The \<open>for\<close> statements of \<open>calculateElevationGain\<close> and \<open>calculateElevationLoss\<close>,
  from \<open>i = 1\<close>: \<open>prev\<close> is \<open>elevations[i - 1]\<close>. The subtraction converts both
  elevations to numbers.
\<close>

fun gain_loop :: "runtime \<Rightarrow> jsval \<Rightarrow> jsval list \<Rightarrow> jsnum \<Rightarrow> jsnum" where
  "gain_loop rt prev [] gain = gain"
| "gain_loop rt prev (e # es) gain =
     (let diff = num_sub (toNumber rt e) (toNumber rt prev)
      in gain_loop rt e es (if num_less (Fin 0) diff then num_add gain diff else gain))"

definition calculateElevationGain :: "runtime \<Rightarrow> jsval list \<Rightarrow> jsnum" where
  "calculateElevationGain rt elevations =
     (case elevations of [] \<Rightarrow> Fin 0 | e # es \<Rightarrow> gain_loop rt e es (Fin 0))"

fun loss_loop :: "runtime \<Rightarrow> jsval \<Rightarrow> jsval list \<Rightarrow> jsnum \<Rightarrow> jsnum" where
  "loss_loop rt prev [] loss = loss"
| "loss_loop rt prev (e # es) loss =
     (let diff = num_sub (toNumber rt e) (toNumber rt prev)
      in loss_loop rt e es (if num_less diff (Fin 0) then num_add loss (num_abs diff) else loss))"

definition calculateElevationLoss :: "runtime \<Rightarrow> jsval list \<Rightarrow> jsnum" where
  "calculateElevationLoss rt elevations =
     (case elevations of [] \<Rightarrow> Fin 0 | e # es \<Rightarrow> loss_loop rt e es (Fin 0))"

subsection \<open>The orchestrator (lines 238-286)\<close>

record profile_statistics =
  totalDistanceMeters :: jsnum
  totalDistanceKm :: jsnum
  minElevation :: jsnum
  maxElevation :: jsnum
  elevationGain :: jsnum
  elevationLoss :: jsnum
  numberOfPoints :: nat

record elevation_profile =
  points :: "elevation_point list"
  statistics :: profile_statistics

text \<open>
  Lines 263-285. \<open>elevationData[elevationData.length - 1].distance\<close> throws a \<open>TypeError\<close>
  on an empty array.
\<close>

definition build_profile :: "runtime \<Rightarrow> elevation_point list \<Rightarrow> error + elevation_profile" where
  "build_profile rt elevationData =
     (let elevations = map elevation elevationData in
      if elevationData = [] then Inl TypeError
      else
        let totalDistance = distance (last elevationData) in
        Inr \<lparr> points = elevationData,
              statistics =
                \<lparr> totalDistanceMeters = totalDistance,
                  totalDistanceKm = num_div totalDistance (Fin 1000),
                  minElevation = Math_min rt elevations,
                  maxElevation = Math_max rt elevations,
                  elevationGain = calculateElevationGain rt elevations,
                  elevationLoss = calculateElevationLoss rt elevations,
                  numberOfPoints = length elevationData \<rparr> \<rparr>)"

text \<open>
  \<open>coordinates\<close> is \<open>None\<close> when the argument is absent (\<open>undefined\<close> or \<open>null\<close>). The
  \<open>map\<close> argument of the method is never read.
\<close>

definition getElevationProfile ::
    "runtime \<Rightarrow> network \<Rightarrow> request list \<Rightarrow> coord list option
     \<Rightarrow> (error + elevation_profile) \<times> request list" where
  "getElevationProfile rt net tr coordinates =
     (case coordinates of
        None \<Rightarrow> (Inl InvalidCoordinates, tr)
      | Some cs \<Rightarrow>
          if length cs < 2 then (Inl InvalidCoordinates, tr)
          else
            (case getElevationFromUSGS3DEP rt net tr cs of
               (Inr elevationData, tr1) \<Rightarrow> (build_profile rt elevationData, tr1)
             | (Inl e, tr1) \<Rightarrow>
                 (case getElevationFromOpenElevation rt net tr1 cs of
                    (Inr elevationData, tr2) \<Rightarrow> (build_profile rt elevationData, tr2)
                  | (Inl fallbackError, tr2) \<Rightarrow> (Inl AllSourcesFailed, tr2))))"

subsection \<open>Example inputs\<close>

text \<open>
  \<open>atan2_real\<close> is the angle of the point \<open>(x, y)\<close>, and \<open>atan2_rounded\<close> its rounding,
  with the angles that ECMAScript gives to infinite arguments.
\<close>

definition atan2_real :: "real \<Rightarrow> real \<Rightarrow> real" where
  "atan2_real y x =
     (if 0 < x then arctan (y / x)
      else if x < 0 then (if 0 \<le> y then arctan (y / x) + pi else arctan (y / x) - pi)
      else if 0 < y then pi / 2
      else if y < 0 then - (pi / 2)
      else 0)"

definition atan2_rounded :: "jsnum \<Rightarrow> jsnum \<Rightarrow> jsnum" where
  "atan2_rounded y x =
     (case y of
        NaN \<Rightarrow> NaN
      | Fin a \<Rightarrow>
          (case x of
             NaN \<Rightarrow> NaN
           | Fin b \<Rightarrow> fl (atan2_real a b)
           | PosInf \<Rightarrow> Fin 0
           | NegInf \<Rightarrow> if 0 \<le> a then fl pi else fl (- pi))
      | PosInf \<Rightarrow>
          (case x of
             NaN \<Rightarrow> NaN
           | Fin b \<Rightarrow> fl (pi / 2)
           | PosInf \<Rightarrow> fl (pi / 4)
           | NegInf \<Rightarrow> fl (3 * pi / 4))
      | NegInf \<Rightarrow>
          (case x of
             NaN \<Rightarrow> NaN
           | Fin b \<Rightarrow> fl (- (pi / 2))
           | PosInf \<Rightarrow> fl (- (pi / 4))
           | NegInf \<Rightarrow> fl (- (3 * pi / 4))))"

text \<open>
  A runtime whose \<open>Math.sin\<close>, \<open>Math.cos\<close> and \<open>Math.atan2\<close> are correctly rounded. Its
  conversions of text are described only on the text of the examples below:
  \<open>"NoData"\<close> is no numeral, so both conversions give \<open>NaN\<close>. \<open>rt_decimal\<close> reads the
  numeral \<open>"12.5"\<close>.
\<close>

definition rt_plain :: runtime where
  "rt_plain =
     \<lparr> coerce = (\<lambda>v. NaN),
       parseFloat = (\<lambda>s. NaN),
       sin_impl = (\<lambda>r. fl (sin r)),
       cos_impl = (\<lambda>r. fl (cos r)),
       atan2_impl = atan2_rounded \<rparr>"

definition rt_decimal :: runtime where
  "rt_decimal =
     \<lparr> coerce = (\<lambda>v. NaN),
       parseFloat = (\<lambda>s. if s = ''12.5'' then Fin (25 / 2) else NaN),
       sin_impl = (\<lambda>r. fl (sin r)),
       cos_impl = (\<lambda>r. fl (cos r)),
       atan2_impl = atan2_rounded \<rparr>"

text \<open>
  A runtime with the values of \<open>Math.sin\<close> and \<open>Math.cos\<close> spelled out at the arguments that
  the coordinates \<open>[-179, -87.5]\<close> and \<open>[1, 87.5]\<close> lead to, and at their negatives; they
  are the correctly rounded values, which the libraries return:
  \<open>Math.sin(1.5271630954950381) = 0.9990482215818578\<close>,
  \<open>Math.sin(1.5707963267948966) = 1\<close> and
  \<open>Math.cos(1.5271630954950381) = 0.04361938736533623\<close>.
\<close>

definition rt_antipodal :: runtime where
  "rt_antipodal =
     \<lparr> coerce = (\<lambda>v. NaN),
       parseFloat = (\<lambda>s. NaN),
       sin_impl =
         (\<lambda>r. if r = 6877731147805427 / 2 ^ 52 then Fin (8998626396882423 / 2 ^ 53)
              else if r = - (6877731147805427 / 2 ^ 52) then Fin (- (8998626396882423 / 2 ^ 53))
              else if r = 884279719003555 / 2 ^ 49 then Fin 1
              else if r = - (884279719003555 / 2 ^ 49) then Fin (- 1)
              else fl (sin r)),
       cos_impl =
         (\<lambda>r. if r = 6877731147805427 / 2 ^ 52 \<or> r = - (6877731147805427 / 2 ^ 52)
              then Fin (3143108106954521 / 2 ^ 56)
              else fl (cos r)),
       atan2_impl = atan2_rounded \<rparr>"

text \<open>The path from \<open>[-179, -87.5]\<close> to \<open>[1, 87.5]\<close> and back.\<close>

definition coords_antipodal :: "coord list" where
  "coords_antipodal = [(- 179, - (175 / 2)), (1, 175 / 2), (- 179, - (175 / 2))]"

definition coords_two :: "coord list" where
  "coords_two = [(0, 0), (0, 1)]"

text \<open>The first request is answered with status 500, every later one with the value 7.\<close>

definition net_first_point_fails :: network where
  "net_first_point_fails tr req =
     (if tr = [] then Response 500 None
      else Response 200 (Some (JObj [(''value'', JNum (Fin 7))])))"

text \<open>
  Every point query is answered with status 500; the batch provider is in order and would
  answer a query for two locations with the elevations 10 and 20.
\<close>

definition net_usgs_500 :: network where
  "net_usgs_500 tr req =
     (case req of
        UsgsIdentify c \<Rightarrow> Response 500 None
      | OpenElevationLookup locations \<Rightarrow>
          Response 200 (Some (JObj [(''results'',
            JArr [JObj [(''elevation'', JNum (Fin 10))], JObj [(''elevation'', JNum (Fin 20))]])])))"

text \<open>The point query is answered with \<open>{"name": "Pixel", "value": "12.5 7"}\<close>.\<close>

definition net_pixel_string :: network where
  "net_pixel_string tr req =
     Response 200 (Some (JObj [(''name'', JStr ''Pixel''), (''value'', JStr ''12.5 7'')]))"



text \<open>The batch provider answers with one result, and with three results.\<close>

definition net_short_results :: network where
  "net_short_results tr req =
     Response 200 (Some (JObj [(''results'', JArr [JObj [(''elevation'', JNum (Fin 7))]])]))"

definition net_long_results :: network where
  "net_long_results tr req =
     Response 200 (Some (JObj [(''results'',
       JArr [JObj [(''elevation'', JNum (Fin 7))], JObj [(''elevation'', JNum (Fin 8))],
             JObj [(''elevation'', JNum (Fin 9))]])]))"

section \<open>Properties\<close>

subsection \<open>Sampling\<close>

lemma mod_step: "Suc (n + j) mod Suc j = n mod Suc j"
proof -
  have "Suc (n + j) = n + Suc j" by simp
  then show ?thesis by (simp only: mod_add_self2)
qed

lemma div_step:
  "(Suc n + j) div Suc j = (n + j) div Suc j + (if n mod Suc j = 0 then 1 else 0)"
proof -
  have "Suc (n + j) div Suc j =
      (if Suc (n + j) mod Suc j = 0 then Suc ((n + j) div Suc j) else (n + j) div Suc j)"
    by (rule div_Suc)
  then have "Suc (n + j) div Suc j =
      (if n mod Suc j = 0 then Suc ((n + j) div Suc j) else (n + j) div Suc j)"
    by (simp only: mod_step)
  then show ?thesis by (simp only: add_Suc Suc_eq_plus1 split: if_splits) auto
qed

lemma length_filter_mod_Suc:
  "length (filter (\<lambda>i. i mod Suc j = 0) [0..<n]) = (n + j) div Suc j"
proof (induction n)
  case 0
  show ?case by simp
next
  case (Suc n)
  have "length (filter (\<lambda>i. i mod Suc j = 0) [0..<Suc n]) =
      length (filter (\<lambda>i. i mod Suc j = 0) [0..<n]) + (if n mod Suc j = 0 then 1 else 0)"
    by simp
  also have "\<dots> = (n + j) div Suc j + (if n mod Suc j = 0 then 1 else 0)"
    by (simp only: Suc.IH)
  also have "\<dots> = (Suc n + j) div Suc j"
    by (simp only: div_step)
  finally show ?case .
qed

lemma length_filter_mod:
  assumes "0 < k"
  shows "length (filter (\<lambda>i. i mod k = 0) [0..<n]) = (n + k - 1) div k"
proof -
  from assms obtain j where k: "k = Suc j" by (cases k) auto
  show ?thesis unfolding k using length_filter_mod_Suc [of j n] by simp
qed

lemma filter_enumerate_nth:
  "map snd (filter (\<lambda>(i, c). P i) (enumerate 0 xs)) = map (nth xs) (filter P [0..<length xs])"
proof (induction xs rule: rev_induct)
  case Nil
  show ?case by simp
next
  case (snoc x xs)
  have "map (nth (xs @ [x])) (filter P [0..<length xs]) = map (nth xs) (filter P [0..<length xs])"
    by (rule map_cong) (auto simp: nth_append)
  with snoc show ?case
    by (simp add: enumerate_append_eq nth_append)
qed

lemma sampleCoords_nth:
  "sampleCoords xs = map (nth xs) (filter (\<lambda>i. i mod sample_step xs = 0) [0..<length xs])"
  unfolding sampleCoords_def by (rule filter_enumerate_nth)

lemma sample_step_pos: "0 < sample_step xs"
  by (simp add: sample_step_def)

lemma sampleCoords_Cons:
  "sampleCoords (x # xs) =
     x # map snd (filter (\<lambda>(index, c). index mod sample_step (x # xs) = 0) (enumerate 1 xs))"
  by (simp add: sampleCoords_def)

lemma sampleCoords_hd: "xs \<noteq> [] \<Longrightarrow> hd (sampleCoords xs) = hd xs"
  by (cases xs) (simp_all only: sampleCoords_Cons list.sel not_False_eq_True simp_thms)

lemma sampleCoords_length:
  "length (sampleCoords xs) = (length xs + sample_step xs - 1) div sample_step xs"
  by (simp add: sampleCoords_nth length_filter_mod sample_step_pos)

text \<open>
  Claim C6. For a non-empty coordinate sequence, sampling with \<open>maxPoints = 50\<close> keeps
  exactly the coordinates whose index is a multiple of the stride
  \<open>max 1 (length seq div 50)\<close>, in order: index 0 is always kept, the number kept is the
  length divided by the stride and rounded up, and the last index is kept if and only if
  it is a multiple of the stride.
\<close>

theorem sampling_stride:
  assumes "seq \<noteq> []"
  shows "sample_step seq = max 1 (length seq div 50)
       \<and> sampleCoords seq = map (nth seq) (filter (\<lambda>i. i mod sample_step seq = 0) [0..<length seq])
       \<and> 0 \<in> set (filter (\<lambda>i. i mod sample_step seq = 0) [0..<length seq])
       \<and> hd (sampleCoords seq) = seq ! 0
       \<and> length (sampleCoords seq) = (length seq + sample_step seq - 1) div sample_step seq
       \<and> (length seq - 1 \<in> set (filter (\<lambda>i. i mod sample_step seq = 0) [0..<length seq])
            \<longleftrightarrow> (length seq - 1) mod sample_step seq = 0)"
proof -
  have 1: "sample_step seq = max 1 (length seq div 50)"
    by (simp add: sample_step_def maxPoints_def)
  have 2: "sampleCoords seq = map (nth seq) (filter (\<lambda>i. i mod sample_step seq = 0) [0..<length seq])"
    by (rule sampleCoords_nth)
  have 3: "0 \<in> set (filter (\<lambda>i. i mod sample_step seq = 0) [0..<length seq])"
    using assms by simp
  have 4: "hd (sampleCoords seq) = seq ! 0"
    using assms sampleCoords_hd [of seq] hd_conv_nth [of seq] by simp
  have 5: "length (sampleCoords seq) = (length seq + sample_step seq - 1) div sample_step seq"
    by (rule sampleCoords_length)
  have 6: "(length seq - 1 \<in> set (filter (\<lambda>i. i mod sample_step seq = 0) [0..<length seq])
            \<longleftrightarrow> (length seq - 1) mod sample_step seq = 0)"
    using assms by simp
  from 1 2 3 4 5 6 show ?thesis by blast
qed

theorem sampling_stride_witness:
  "replicate 100 (0::real, 0::real) \<noteq> []
   \<and> sample_step (replicate 100 (0::real, 0::real)) = 2
   \<and> length (sampleCoords (replicate 100 (0::real, 0::real))) = 50"
proof -
  let ?seq = "replicate 100 (0::real, 0::real)"
  have ne: "?seq \<noteq> []" by simp
  note t = sampling_stride [OF ne]
  from t have s: "sample_step ?seq = 2" by simp
  from t have "length (sampleCoords ?seq) = (length ?seq + sample_step ?seq - 1) div sample_step ?seq"
    by blast
  then have "length (sampleCoords ?seq) = 50" unfolding s by simp
  with ne s show ?thesis by blast
qed

subsection \<open>Rounding to binary64\<close>

text \<open>
  What is used of \<open>fl\<close>: a representable number in range is its own rounding, a rounding
  is representable, rounding is odd and monotone, and \<open>fl_evalI\<close> computes the rounding of
  a number whose binade is known.
\<close>

lemma pow2_powr: "pow2 e = 2 powr (of_int e)"
proof (cases "0 \<le> e")
  case True
  then have "of_int e = real (nat e)" by simp
  then have "(2::real) powr (of_int e) = 2 ^ nat e" by (simp only: powr_realpow zero_less_numeral)
  with True show ?thesis by (simp add: pow2_def)
next
  case False
  then have "of_int e = - real (nat (- e))" by simp
  then have "(2::real) powr (of_int e) = 1 / 2 ^ nat (- e)"
    by (simp only: powr_minus_divide powr_realpow zero_less_numeral)
  with False show ?thesis by (simp add: pow2_def)
qed

lemma pow2_pos: "0 < pow2 e"
  by (simp add: pow2_powr)

lemma pow2_add: "pow2 (a + b) = pow2 a * pow2 b"
  by (simp add: pow2_powr powr_add)

lemma pow2_mono: "a \<le> b \<Longrightarrow> pow2 a \<le> pow2 b"
  by (simp add: pow2_powr)

lemma pow2_less: "a < b \<Longrightarrow> pow2 a < pow2 b"
  by (simp add: pow2_powr)

lemma pow2_le_iff: "pow2 a \<le> pow2 b \<longleftrightarrow> a \<le> b"
  by (simp add: pow2_powr)

lemma pow2_less_iff: "pow2 a < pow2 b \<longleftrightarrow> a < b"
  by (simp add: pow2_powr)

lemma pow2_0: "pow2 0 = 1"
  by (simp add: pow2_def)

lemma pow2_nat: "pow2 (int n) = 2 ^ n"
  by (simp add: pow2_def)

lemma pow2_int: "0 \<le> e \<Longrightarrow> pow2 e = of_int (2 ^ nat e)"
  by (simp add: pow2_def)

lemma floor_log2_bounds:
  assumes "x \<noteq> 0"
  shows "pow2 \<lfloor>log 2 \<bar>x\<bar>\<rfloor> \<le> \<bar>x\<bar>" and "\<bar>x\<bar> < pow2 (\<lfloor>log 2 \<bar>x\<bar>\<rfloor> + 1)"
proof -
  from assms have p: "0 < \<bar>x\<bar>" by simp
  define L where "L = log 2 \<bar>x\<bar>"
  have 1: "of_int \<lfloor>L\<rfloor> \<le> L" by (rule of_int_floor_le)
  have 2: "L < of_int (\<lfloor>L\<rfloor> + 1)" by linarith
  have "2 powr (of_int \<lfloor>L\<rfloor>) \<le> \<bar>x\<bar>"
    using le_log_iff [of 2 "\<bar>x\<bar>" "of_int \<lfloor>L\<rfloor>"] p 1 unfolding L_def by simp
  then show "pow2 \<lfloor>log 2 \<bar>x\<bar>\<rfloor> \<le> \<bar>x\<bar>" unfolding L_def by (simp only: pow2_powr)
  have "\<bar>x\<bar> < 2 powr (of_int (\<lfloor>L\<rfloor> + 1))"
    using log_less_iff [of 2 "\<bar>x\<bar>" "of_int (\<lfloor>L\<rfloor> + 1)"] p 2 unfolding L_def by simp
  then show "\<bar>x\<bar> < pow2 (\<lfloor>log 2 \<bar>x\<bar>\<rfloor> + 1)" unfolding L_def by (simp only: pow2_powr)
qed

lemma floor_log2_unique:
  assumes "pow2 e \<le> \<bar>x\<bar>" and "\<bar>x\<bar> < pow2 (e + 1)"
  shows "\<lfloor>log 2 \<bar>x\<bar>\<rfloor> = e"
proof -
  from assms(1) pow2_pos [of e] have p: "0 < \<bar>x\<bar>" by linarith
  from assms(1) have "2 powr (of_int e) \<le> \<bar>x\<bar>" by (simp only: pow2_powr)
  with p have 1: "of_int e \<le> log 2 \<bar>x\<bar>"
    using le_log_iff [of 2 "\<bar>x\<bar>" "of_int e"] by simp
  from assms(2) have "\<bar>x\<bar> < 2 powr (of_int (e + 1))" by (simp only: pow2_powr)
  with p have 2: "log 2 \<bar>x\<bar> < of_int (e + 1)"
    using log_less_iff [of 2 "\<bar>x\<bar>" "of_int (e + 1)"] by simp
  from 1 2 show ?thesis by (simp add: floor_unique)
qed

lemma round_even_int: "round_even (of_int k) = k"
  by (simp add: round_even_def)

lemma round_even_err: "\<bar>of_int (round_even y) - y\<bar> \<le> 1 / 2"
proof -
  have "of_int \<lfloor>y\<rfloor> \<le> y" "y < of_int \<lfloor>y\<rfloor> + 1" by linarith+
  then show ?thesis by (auto simp: round_even_def Let_def)
qed

lemma round_even_ge: "of_int k \<le> y \<Longrightarrow> k \<le> round_even y"
proof -
  assume "of_int k \<le> y"
  then have "k \<le> \<lfloor>y\<rfloor>" by (simp add: le_floor_iff)
  then show ?thesis by (auto simp: round_even_def Let_def)
qed

lemma round_even_le: "y \<le> of_int k \<Longrightarrow> round_even y \<le> k"
proof -
  assume a: "y \<le> of_int k"
  show ?thesis
  proof (cases "y = of_int k")
    case True
    then show ?thesis by (simp add: round_even_int)
  next
    case False
    with a have "y < of_int k" by simp
    then have "\<lfloor>y\<rfloor> < k" by (simp add: floor_less_iff)
    then show ?thesis by (auto simp: round_even_def Let_def)
  qed
qed

lemma round_even_minus: "round_even (- y) = - round_even y"
proof (cases "y = of_int \<lfloor>y\<rfloor>")
  case True
  then obtain k where k: "y = of_int k" ..
  then have "- y = of_int (- k)" by simp
  then have "round_even (- y) = - k" by (simp only: round_even_int)
  with k show ?thesis by (simp only: round_even_int)
next
  case False
  have b: "of_int \<lfloor>y\<rfloor> < y" "y < of_int \<lfloor>y\<rfloor> + 1"
    using False by linarith+
  have c: "real_of_int (- \<lfloor>y\<rfloor> - 1) = - of_int \<lfloor>y\<rfloor> - 1" by simp
  from b have "of_int (- \<lfloor>y\<rfloor> - 1) \<le> - y" "- y < of_int (- \<lfloor>y\<rfloor> - 1) + 1"
    unfolding c by linarith+
  then have f: "\<lfloor>- y\<rfloor> = - \<lfloor>y\<rfloor> - 1" by (simp add: floor_unique)
  define g where "g = \<lfloor>y\<rfloor>"
  define d where "d = y - of_int g"
  have d: "0 < d" "d < 1" using b unfolding d_def g_def by linarith+
  have ry: "round_even y = (if d < 1 / 2 then g else if 1 / 2 < d then g + 1 else if even g then g else g + 1)"
    by (simp add: round_even_def Let_def d_def g_def)
  have dm: "- y - of_int (- g - 1) = 1 - d" by (simp add: d_def)
  have rm: "round_even (- y) =
      (if 1 - d < 1 / 2 then - g - 1 else if 1 / 2 < 1 - d then - g else if even (- g - 1) then - g - 1 else - g)"
    unfolding round_even_def Let_def f g_def [symmetric] dm by simp
  show ?thesis
  proof (cases "d < 1 / 2")
    case True
    then show ?thesis unfolding ry rm by simp
  next
    case False
    show ?thesis
    proof (cases "1 / 2 < d")
      case True
      then show ?thesis unfolding ry rm by simp
    next
      case F2: False
      with False have "d = 1 / 2" by simp
      then show ?thesis unfolding ry rm by simp
    qed
  qed
qed

lemma expo_ge: "- 1022 \<le> expo x"
  by (simp add: expo_def)

lemma expo_cases:
  assumes "x \<noteq> 0"
  shows "(pow2 (expo x) \<le> \<bar>x\<bar> \<or> expo x = - 1022) \<and> \<bar>x\<bar> < pow2 (expo x + 1)"
proof (cases "- 1022 \<le> \<lfloor>log 2 \<bar>x\<bar>\<rfloor>")
  case True
  then have "expo x = \<lfloor>log 2 \<bar>x\<bar>\<rfloor>" by (simp add: expo_def)
  with floor_log2_bounds [OF assms] show ?thesis by simp
next
  case False
  then have e: "expo x = - 1022" by (simp add: expo_def)
  from False have "\<lfloor>log 2 \<bar>x\<bar>\<rfloor> + 1 \<le> - 1022 + 1" by linarith
  then have "pow2 (\<lfloor>log 2 \<bar>x\<bar>\<rfloor> + 1) \<le> pow2 (- 1022 + 1)" by (rule pow2_mono)
  with floor_log2_bounds(2) [OF assms] have "\<bar>x\<bar> < pow2 (- 1022 + 1)" by linarith
  with e show ?thesis by simp
qed

lemma expo_minus: "expo (- x) = expo x"
  by (simp add: expo_def)

lemma expo_unique:
  assumes "pow2 e \<le> \<bar>x\<bar>" and "\<bar>x\<bar> < pow2 (e + 1)" and "- 1022 \<le> e"
  shows "expo x = e"
  using floor_log2_unique [OF assms(1,2)] assms(3) by (simp add: expo_def)

lemma pow2_split: "pow2 e = pow2 (e - d) * pow2 d"
  using pow2_add [of "e - d" d] by simp

lemma pow2_is_int: "0 \<le> e \<Longrightarrow> \<exists>k::int. pow2 e = of_int k"
  using pow2_int by blast

lemma pow2_53: "pow2 53 = 2 ^ 53"
  by (simp add: pow2_def)

lemma pow2_52: "pow2 52 = 2 ^ 52"
  by (simp add: pow2_def)

lemma pow2_shift53: "pow2 (e + 1) = 2 ^ 53 * pow2 (e - 52)"
proof -
  have "e + 1 = 53 + (e - 52)" by simp
  then show ?thesis by (simp only: pow2_add pow2_53)
qed

lemma pow2_shift52: "pow2 e = 2 ^ 52 * pow2 (e - 52)"
proof -
  have "e = 52 + (e - 52)" by simp
  then have "pow2 e = pow2 (52 + (e - 52))" by simp
  then show ?thesis by (simp only: pow2_add pow2_52)
qed

lemma div_by_pos: "0 < q \<Longrightarrow> x = k * q \<Longrightarrow> x / q = (k::real)"
  by simp

lemma significand_bound:
  assumes "x \<noteq> 0"
  shows "\<bar>x / pow2 (expo x - 52)\<bar> < 2 ^ 53"
proof -
  from expo_cases [OF assms] have "\<bar>x\<bar> < pow2 (expo x + 1)" by blast
  also have "pow2 (expo x + 1) = 2 ^ 53 * pow2 (expo x - 52)" by (rule pow2_shift53)
  finally have "\<bar>x\<bar> / pow2 (expo x - 52) < 2 ^ 53"
    using pow2_pos [of "expo x - 52"] by (simp add: pos_divide_less_eq)
  then show ?thesis using pow2_pos [of "expo x - 52"] by simp
qed

lemma round_significand_bound:
  assumes "x \<noteq> 0"
  shows "\<bar>round_even (x / pow2 (expo x - 52))\<bar> \<le> 2 ^ 53"
proof -
  let ?y = "x / pow2 (expo x - 52)"
  have c: "real_of_int (2 ^ 53) = 2 ^ 53" "real_of_int (- (2 ^ 53)) = - (2 ^ 53)" by simp_all
  from significand_bound [OF assms] have u: "?y \<le> of_int (2 ^ 53)" and l: "of_int (- (2 ^ 53)) \<le> ?y"
    unfolding c by linarith+
  from u have "round_even ?y \<le> 2 ^ 53" by (rule round_even_le)
  moreover from l have "- (2 ^ 53) \<le> round_even ?y" by (rule round_even_ge)
  ultimately show ?thesis by simp
qed

lemma double_multiple:
  assumes "is_double t" and "- 1022 \<le> E" and "pow2 E \<le> \<bar>t\<bar> \<or> E = - 1022"
  shows "\<exists>k::int. t = of_int k * pow2 (E - 52)"
proof -
  from assms(1) obtain m e where t: "t = of_int m * pow2 e" and m: "\<bar>m\<bar> < 2 ^ 53" and e: "- 1074 \<le> e"
    unfolding is_double_def by blast
  have le: "E - 52 \<le> e"
  proof (cases "E = - 1022")
    case True
    with e show ?thesis by simp
  next
    case False
    with assms(3) have "pow2 E \<le> \<bar>t\<bar>" by simp
    also have "\<bar>t\<bar> = \<bar>of_int m\<bar> * pow2 e" using pow2_pos [of e] by (simp add: t abs_mult)
    also have "\<dots> < 2 ^ 53 * pow2 e"
    proof -
      from m have "\<bar>real_of_int m\<bar> < 2 ^ 53"
        by (metis of_int_abs of_int_less_numeral_power_cancel_iff)
      then show ?thesis using pow2_pos [of e] by simp
    qed
    also have "\<dots> = pow2 (53 + e)" by (simp add: pow2_add pow2_53)
    finally have "E < 53 + e" by (simp add: pow2_less_iff)
    then show ?thesis by simp
  qed
  then obtain j where j: "pow2 (e - (E - 52)) = of_int j" using pow2_is_int [of "e - (E - 52)"] by auto
  have "pow2 e = pow2 (e - (E - 52)) * pow2 (E - 52)" by (rule pow2_split)
  then have "t = of_int (m * j) * pow2 (E - 52)" by (simp add: t j)
  then show ?thesis ..
qed

lemma is_double_0: "is_double 0"
  unfolding is_double_def by (rule exI [of _ 0], rule exI [of _ 0]) simp

lemma fl_0: "fl 0 = Fin 0"
  by (simp add: fl_def)

lemma fl_unfold:
  assumes "x \<noteq> 0"
  shows "fl x =
    (if pow2 1024 \<le> \<bar>of_int (round_even (x / pow2 (expo x - 52))) * pow2 (expo x - 52)\<bar>
     then (if 0 < x then PosInf else NegInf)
     else Fin (of_int (round_even (x / pow2 (expo x - 52))) * pow2 (expo x - 52)))"
  using assms by (simp add: fl_def Let_def)

lemma fl_exact:
  assumes "is_double x" and "\<bar>x\<bar> < pow2 1024"
  shows "fl x = Fin x"
proof (cases "x = 0")
  case True
  then show ?thesis by (simp add: fl_0)
next
  case False
  from expo_cases [OF False] have "pow2 (expo x) \<le> \<bar>x\<bar> \<or> expo x = - 1022" by blast
  from double_multiple [OF assms(1) expo_ge this] obtain k where
    k: "x = of_int k * pow2 (expo x - 52)" ..
  from pow2_pos k have "x / pow2 (expo x - 52) = of_int k" by (rule div_by_pos)
  then have "round_even (x / pow2 (expo x - 52)) = k" by (simp only: round_even_int)
  then have "of_int (round_even (x / pow2 (expo x - 52))) * pow2 (expo x - 52) = x"
    using k by simp
  with assms(2) show ?thesis unfolding fl_unfold [OF False] by simp
qed

lemma fl_is_double:
  assumes "fl x = Fin r"
  shows "is_double r"
proof (cases "x = 0")
  case True
  with assms show ?thesis by (simp add: fl_0 is_double_0)
next
  case False
  let ?q = "pow2 (expo x - 52)"
  let ?n = "round_even (x / ?q)"
  from assms have r: "r = of_int ?n * ?q"
    unfolding fl_unfold [OF False] by (simp split: if_splits)
  from expo_ge [of x] have e: "- 1074 \<le> expo x - 52" by simp
  show ?thesis
  proof (cases "\<bar>?n\<bar> < 2 ^ 53")
    case True
    with r e show ?thesis unfolding is_double_def by blast
  next
    case F: False
    with round_significand_bound [OF False] have "\<bar>?n\<bar> = 2 ^ 53" by simp
    then have "?n = 2 ^ 53 \<or> ?n = - (2 ^ 53)" by linarith
    then obtain s :: int where s: "\<bar>s\<bar> = 1" and n: "?n = s * 2 ^ 53" by auto
    have "?q * 2 = pow2 (expo x - 51)" using pow2_add [of "expo x - 52" 1] by (simp add: pow2_def)
    then have "r = of_int (s * 2 ^ 52) * pow2 (expo x - 51)"
      unfolding r n by simp
    moreover have "\<bar>s * 2 ^ 52\<bar> < (2::int) ^ 53" using s by (simp add: abs_mult)
    moreover have "- 1074 \<le> expo x - 51" using e by simp
    ultimately show ?thesis unfolding is_double_def by blast
  qed
qed

lemma fl_minus: "fl (- x) = num_neg (fl x)"
proof (cases "x = 0")
  case True
  then show ?thesis by (simp add: fl_0 num_neg_def)
next
  case False
  then have nz: "- x \<noteq> 0" by simp
  have "round_even (- x / pow2 (expo x - 52)) = - round_even (x / pow2 (expo x - 52))"
    using round_even_minus [of "x / pow2 (expo x - 52)"] by simp
  then show ?thesis
    unfolding fl_unfold [OF False] fl_unfold [OF nz] expo_minus
    using False by (simp add: num_neg_def)
qed

lemma fl_lower:
  assumes "is_double t" and "0 \<le> t" and "t \<le> x"
  shows "fl x = PosInf \<or> (\<exists>r. fl x = Fin r \<and> t \<le> r)"
proof (cases "x = 0")
  case True
  with assms show ?thesis by (simp add: fl_0)
next
  case False
  with assms have xp: "0 < x" by simp
  let ?E = "expo x"
  let ?q = "pow2 (?E - 52)"
  let ?n = "round_even (x / ?q)"
  have q: "0 < ?q" by (rule pow2_pos)
  have "t \<le> of_int ?n * ?q"
  proof (cases "pow2 ?E \<le> \<bar>t\<bar> \<or> ?E = - 1022")
    case True
    from double_multiple [OF assms(1) expo_ge True] obtain k where k: "t = of_int k * ?q" ..
    with assms(3) q have "of_int k \<le> x / ?q" by (simp add: pos_le_divide_eq)
    then have "k \<le> ?n" by (rule round_even_ge)
    then have "real_of_int k \<le> of_int ?n" by simp
    with q show ?thesis unfolding k by (simp only: mult_le_cancel_right_pos)
  next
    case F: False
    with expo_cases [OF False] xp have px: "pow2 ?E \<le> x" by simp
    have "pow2 ?E = of_int (2 ^ 52) * ?q" using pow2_shift52 [of ?E] by simp
    with px q have "of_int (2 ^ 52) \<le> x / ?q" by (simp add: pos_le_divide_eq)
    then have "2 ^ 52 \<le> ?n" by (rule round_even_ge)
    then have "real_of_int (2 ^ 52) \<le> of_int ?n" by (simp only: of_int_le_iff)
    with q have "of_int (2 ^ 52) * ?q \<le> of_int ?n * ?q" by (simp only: mult_le_cancel_right_pos)
    with \<open>pow2 ?E = of_int (2 ^ 52) * ?q\<close> have "pow2 ?E \<le> of_int ?n * ?q" by simp
    moreover from F assms(2) have "t < pow2 ?E" by simp
    ultimately show ?thesis by linarith
  qed
  then show ?thesis unfolding fl_unfold [OF False] using xp by simp
qed

lemma fl_upper:
  assumes "is_double t" and "0 \<le> x" and "x \<le> t" and "t < pow2 1024"
  shows "\<exists>r. fl x = Fin r \<and> 0 \<le> r \<and> r \<le> t"
proof (cases "x = 0")
  case True
  with assms show ?thesis by (simp add: fl_0)
next
  case False
  with assms have xp: "0 < x" by simp
  let ?E = "expo x"
  let ?q = "pow2 (?E - 52)"
  let ?n = "round_even (x / ?q)"
  have q: "0 < ?q" by (rule pow2_pos)
  from expo_cases [OF False] xp have "pow2 ?E \<le> x \<or> ?E = - 1022" by simp
  with assms(3) xp have "pow2 ?E \<le> \<bar>t\<bar> \<or> ?E = - 1022" by auto
  from double_multiple [OF assms(1) expo_ge this] obtain k where k: "t = of_int k * ?q" ..
  with assms(3) q have "x / ?q \<le> of_int k" by (simp add: pos_divide_le_eq)
  then have "?n \<le> k" by (rule round_even_le)
  then have "real_of_int ?n \<le> of_int k" by simp
  with q have up: "of_int ?n * ?q \<le> t" unfolding k by (simp only: mult_le_cancel_right_pos)
  from xp q have "of_int 0 \<le> x / ?q" by simp
  then have "0 \<le> ?n" by (rule round_even_ge)
  with q have lo: "0 \<le> of_int ?n * ?q" by simp
  from lo up assms(4) have "\<not> pow2 1024 \<le> \<bar>of_int ?n * ?q\<bar>" by simp
  with lo up show ?thesis unfolding fl_unfold [OF False] by simp
qed

lemma fl_nonneg:
  assumes "0 \<le> x"
  shows "fl x = PosInf \<or> (\<exists>r. fl x = Fin r \<and> 0 \<le> r)"
  using fl_lower [OF is_double_0 _ assms] by simp

lemma fl_eval:
  assumes "pow2 e \<le> \<bar>x\<bar>" and "\<bar>x\<bar> < pow2 (e + 1)" and "- 1022 \<le> e" and "e \<le> 1022"
  shows "fl x = Fin (of_int (round_even (x / pow2 (e - 52))) * pow2 (e - 52))"
proof -
  from assms(1) pow2_pos [of e] have nz: "x \<noteq> 0" by auto
  have E: "expo x = e" using assms(1,2,3) by (rule expo_unique)
  let ?q = "pow2 (e - 52)"
  let ?n = "round_even (x / ?q)"
  have q: "0 < ?q" by (rule pow2_pos)
  from round_significand_bound [OF nz] have "\<bar>real_of_int ?n\<bar> \<le> 2 ^ 53"
    unfolding E by (metis of_int_abs of_int_le_numeral_power_cancel_iff)
  then have "\<bar>of_int ?n * ?q\<bar> \<le> 2 ^ 53 * ?q" using q by (simp add: abs_mult)
  also have "2 ^ 53 * ?q = pow2 (e + 1)" by (simp only: pow2_shift53)
  also have "\<dots> < pow2 1024" using assms(4) by (simp add: pow2_less_iff)
  finally show ?thesis unfolding fl_unfold [OF nz] E by simp
qed


lemma fl_exactI:
  assumes "x = of_int m * pow2 e" and "\<bar>m\<bar> < 2 ^ 53" and "- 1074 \<le> e" and "\<bar>x\<bar> < pow2 1024"
  shows "fl x = Fin x"
proof -
  from assms(1,2,3) have "is_double x" unfolding is_double_def by blast
  then show ?thesis using assms(4) by (rule fl_exact)
qed

lemma fl_int:
  assumes "\<bar>k\<bar> \<le> 2 ^ 53"
  shows "fl (of_int k) = Fin (of_int k)"
proof (cases "\<bar>k\<bar> < 2 ^ 53")
  case True
  have b: "\<bar>real_of_int k\<bar> < pow2 1024"
  proof -
    from True have "\<bar>real_of_int k\<bar> < 2 ^ 53"
      by (metis of_int_abs of_int_less_numeral_power_cancel_iff)
    also have "(2::real) ^ 53 = pow2 53" by (simp add: pow2_def)
    also have "pow2 53 < pow2 1024" by (simp add: pow2_less_iff)
    finally show ?thesis .
  qed
  show ?thesis by (rule fl_exactI [of _ k 0]) (use True b in \<open>simp_all add: pow2_0\<close>)
next
  case False
  with assms have "\<bar>k\<bar> = 2 ^ 53" by simp
  then have "k = 2 ^ 53 \<or> k = - (2 ^ 53)" by linarith
  then obtain s :: int where s: "\<bar>s\<bar> = 1" and k: "k = s * 2 ^ 53" by auto
  have b: "\<bar>real_of_int k\<bar> < pow2 1024"
  proof -
    from s have "\<bar>real_of_int k\<bar> = pow2 53" unfolding k by (simp add: abs_mult pow2_def)
    also have "pow2 53 < pow2 1024" by (simp add: pow2_less_iff)
    finally show ?thesis .
  qed
  have "real_of_int k = of_int (s * 2 ^ 52) * pow2 1" unfolding k by (simp add: pow2_def)
  moreover have "\<bar>s * 2 ^ 52\<bar> < (2::int) ^ 53" using s by (simp add: abs_mult)
  ultimately show ?thesis using b by (intro fl_exactI [of _ "s * 2 ^ 52" 1]) simp_all
qed

lemma fl_evalI:
  assumes "pow2 e \<le> \<bar>x\<bar>" and "\<bar>x\<bar> < pow2 (e + 1)" and "- 1022 \<le> e" and "e \<le> 1022"
    and "round_even (x / pow2 (e - 52)) = k" and "r = of_int k * pow2 (e - 52)"
  shows "fl x = Fin r"
  using fl_eval [OF assms(1-4)] assms(5,6) by simp

lemma fl_Fin_range:
  assumes "fl x = Fin r"
  shows "\<bar>r\<bar> < pow2 1024"
proof (cases "x = 0")
  case True
  with assms have "r = 0" by (simp add: fl_0)
  then show ?thesis by (simp add: pow2_pos)
next
  case False
  from assms show ?thesis unfolding fl_unfold [OF False] by (auto split: if_splits)
qed

lemma fl_idem: "fl x = Fin r \<Longrightarrow> fl r = Fin r"
  by (rule fl_exact) (erule fl_is_double, erule fl_Fin_range)

lemma fl_abs_le:
  assumes "is_double t" and "\<bar>x\<bar> \<le> t" and "t < pow2 1024"
  shows "\<exists>r. fl x = Fin r \<and> \<bar>r\<bar> \<le> t"
proof (cases "0 \<le> x")
  case True
  with assms fl_upper [of t x] show ?thesis by fastforce
next
  case False
  with assms fl_upper [of t "- x"] obtain r where r: "fl (- x) = Fin r" "0 \<le> r" "r \<le> t" by fastforce
  have "fl x = num_neg (fl (- x))" using fl_minus [of "- x"] by simp
  with r have "fl x = Fin (- r)" by (simp add: num_neg_def)
  with r show ?thesis by simp
qed

lemma is_double_1: "is_double 1"
  unfolding is_double_def by (rule exI [of _ 1], rule exI [of _ 0]) (simp add: pow2_0)

lemma one_less_pow2_1024: "1 < pow2 1024"
  using pow2_less [of 0 1024] by (simp add: pow2_0)

lemma fl_unit:
  assumes "\<bar>x\<bar> \<le> 1"
  shows "\<exists>r. fl x = Fin r \<and> \<bar>r\<bar> \<le> 1"
  using is_double_1 assms one_less_pow2_1024 by (rule fl_abs_le)

lemma is_double_pow2: "- 1074 \<le> e \<Longrightarrow> is_double (pow2 e)"
  unfolding is_double_def by (rule exI [of _ 1], rule exI [of _ e]) simp



lemma fl_1: "fl 1 = Fin 1"
  using fl_int [of 1] by simp

subsection \<open>Arithmetic on numbers\<close>


lemma signed_inf_minus: "signed_inf (- s) = num_neg (signed_inf s)"
  by (simp add: signed_inf_def num_neg_def)







lemma num_le_Fin: "num_le (Fin x) (Fin y) \<longleftrightarrow> x \<le> y"
  by (auto simp: num_le_def num_less_def)

lemma num_less_Fin: "num_less (Fin x) (Fin y) \<longleftrightarrow> x < y"
  by (simp add: num_less_def)

lemma num_mul_Fin: "num_mul (Fin x) (Fin y) = fl (x * y)"
  by (simp add: num_mul_def)

lemma num_div_Fin: "y \<noteq> 0 \<Longrightarrow> num_div (Fin x) (Fin y) = fl (x / y)"
  by (simp add: num_div_def)

lemma num_sub_Fin: "num_sub (Fin x) (Fin y) = fl (x - y)"
  by (simp add: num_sub_def)

lemma num_add_Fin: "num_add (Fin x) (Fin y) = fl (x + y)"
  by (simp add: num_add_def)

lemma num_abs_Fin: "num_abs (Fin x) = Fin \<bar>x\<bar>"
  by (simp add: num_abs_def)

lemmas num_Fin_simps =
  num_le_Fin num_less_Fin num_sub_Fin num_add_Fin num_abs_Fin num_mul_Fin num_div_Fin

lemma num_le_zero_cases:
  "num_le (Fin 0) a \<longleftrightarrow> a = PosInf \<or> (\<exists>r. a = Fin r \<and> 0 \<le> r)"
  by (cases a) (auto simp: num_le_def num_less_def)

lemma fl_nonneg_le: "0 \<le> x \<Longrightarrow> num_le (Fin 0) (fl x)"
  using fl_nonneg [of x] by (auto simp: num_le_zero_cases)

lemma num_mul_nonneg:
  assumes "0 < k" and "num_le (Fin 0) c"
  shows "num_le (Fin 0) (num_mul (Fin k) c)"
proof -
  from assms(2) consider "c = PosInf" | r where "c = Fin r" "0 \<le> r"
    by (auto simp: num_le_zero_cases)
  then show ?thesis
  proof cases
    case 1
    with assms(1) show ?thesis by (simp add: num_mul_def signed_inf_def num_le_zero_cases)
  next
    case 2
    with assms(1) have "0 \<le> k * r" by simp
    then show ?thesis using 2 by (simp add: num_mul_def fl_nonneg_le)
  qed
qed

lemma num_mul_NaN: "num_mul a NaN = NaN" "num_mul NaN a = NaN"
  by (cases a; simp add: num_mul_def)+

lemma num_add_NaN: "num_add a NaN = NaN" "num_add NaN a = NaN"
  by (cases a; simp add: num_add_def)+

lemma num_add_not_NaN: "num_add t d \<noteq> NaN \<Longrightarrow> t \<noteq> NaN \<and> d \<noteq> NaN"
  by (cases t; cases d) (simp_all add: num_add_def)

lemma num_le_trans: "num_le a b \<Longrightarrow> num_le b c \<Longrightarrow> num_le a c"
  by (cases a; cases b; cases c) (auto simp: num_le_def num_less_def)

lemma num_le_refl: "a \<noteq> NaN \<Longrightarrow> num_le a a"
  by (simp add: num_le_def)

lemma running_total_step:
  assumes "t = PosInf \<or> (\<exists>r. t = Fin r \<and> 0 \<le> r \<and> is_double r)"
    and "num_le (Fin 0) d"
  shows "num_le t (num_add t d)"
    and "num_add t d = PosInf \<or> (\<exists>r. num_add t d = Fin r \<and> 0 \<le> r \<and> is_double r)"
proof -
  from assms(2) consider "d = PosInf" | x where "d = Fin x" "0 \<le> x"
    by (auto simp: num_le_zero_cases)
  then have "num_le t (num_add t d)
      \<and> (num_add t d = PosInf \<or> (\<exists>r. num_add t d = Fin r \<and> 0 \<le> r \<and> is_double r))"
  proof cases
    case 1
    with assms(1) show ?thesis by (auto simp: num_add_def num_le_def num_less_def)
  next
    case 2
    from assms(1) show ?thesis
    proof
      assume "t = PosInf"
      with 2 show ?thesis by (simp add: num_add_def num_le_def)
    next
      assume "\<exists>r. t = Fin r \<and> 0 \<le> r \<and> is_double r"
      then obtain r where r: "t = Fin r" "0 \<le> r" "is_double r" by blast
      from 2(2) have "r \<le> r + x" by simp
      from fl_lower [OF r(3) r(2) this] show ?thesis
      proof
        assume "fl (r + x) = PosInf"
        with r 2 show ?thesis by (simp add: num_add_def num_le_def num_less_def)
      next
        assume "\<exists>r'. fl (r + x) = Fin r' \<and> r \<le> r'"
        then obtain r' where r': "fl (r + x) = Fin r'" "r \<le> r'" by blast
        from r'(1) have "is_double r'" by (rule fl_is_double)
        with r r' 2 show ?thesis by (simp add: num_add_def num_le_Fin)
      qed
    qed
  qed
  then show "num_le t (num_add t d)"
    and "num_add t d = PosInf \<or> (\<exists>r. num_add t d = Fin r \<and> 0 \<le> r \<and> is_double r)"
    by simp_all
qed

subsection \<open>The mathematical functions\<close>

lemma Math_PI_pos: "0 < Math_PI" "Math_PI \<le> 4"
  by (simp_all add: Math_PI_def)


lemma Math_sin_0: "Math_sin rt (Fin 0) = Fin 0"
  by (simp add: Math_sin_def)

lemma Math_sqrt_cases: "Math_sqrt a = NaN \<or> num_le (Fin 0) (Math_sqrt a)"
proof (cases a)
  case (Fin r)
  then show ?thesis by (cases "r < 0") (simp_all add: Math_sqrt_def fl_nonneg_le)
qed (simp_all add: Math_sqrt_def num_le_zero_cases)




lemma Math_atan2_nonneg:
  assumes "\<forall>y x. num_le (Fin 0) y \<and> num_le (Fin 0) x \<longrightarrow> num_le (Fin 0) (atan2_impl rt y x)"
    and "num_le (Fin 0) y" and "num_le (Fin 0) x"
  shows "num_le (Fin 0) (Math_atan2 rt y x)"
  using assms by (auto simp: Math_atan2_def num_le_zero_cases)

lemma Math_atan2_NaN: "y = NaN \<or> x = NaN \<Longrightarrow> Math_atan2 rt y x = NaN"
  by (auto simp: Math_atan2_def)


lemma atan2_real_nonneg: "0 \<le> y \<Longrightarrow> 0 \<le> x \<Longrightarrow> 0 \<le> atan2_real y x"
  by (simp add: atan2_real_def arctan_monotone' [of 0, simplified])

lemma atan2_rounded_nonneg:
  assumes "num_le (Fin 0) y" and "num_le (Fin 0) x"
  shows "num_le (Fin 0) (atan2_rounded y x)"
proof -
  have p: "num_le (Fin 0) (fl (pi / 2))" "num_le (Fin 0) (fl (pi / 4))"
    by (rule fl_nonneg_le, simp)+
  from assms show ?thesis
    by (auto simp: num_le_zero_cases [of y] num_le_zero_cases [of x] atan2_rounded_def p
        atan2_real_nonneg fl_nonneg_le num_le_Fin)
qed

lemma libm_ok_rounded:
  assumes "sin_impl rt = (\<lambda>r. fl (sin r))" and "cos_impl rt = (\<lambda>r. fl (cos r))"
    and "atan2_impl rt = atan2_rounded"
  shows "libm_ok rt"
proof -
  have "\<exists>c. fl (cos r) = Fin c \<and> \<bar>c\<bar> \<le> 1" for r :: real
    by (rule fl_unit) simp
  then show ?thesis
    unfolding libm_ok_def assms by (simp add: fl_minus atan2_rounded_nonneg)
qed

lemma libm_ok_plain: "libm_ok rt_plain"
  by (rule libm_ok_rounded) (simp_all add: rt_plain_def)

lemma libm_ok_antipodal: "libm_ok rt_antipodal"
proof -
  have c: "\<exists>c. fl (cos r) = Fin c \<and> \<bar>c\<bar> \<le> 1" for r :: real
    by (rule fl_unit) simp
  have 1: "sin_impl rt_antipodal (- r) = num_neg (sin_impl rt_antipodal r)" for r
    by (simp add: rt_antipodal_def num_neg_def fl_minus)
  have 2: "\<exists>c. cos_impl rt_antipodal r = Fin c \<and> \<bar>c\<bar> \<le> 1" for r
  proof (cases "r = 6877731147805427 / 2 ^ 52 \<or> r = - (6877731147805427 / 2 ^ 52)")
    case True
    then have "cos_impl rt_antipodal r = Fin (3143108106954521 / 2 ^ 56)"
      by (simp add: rt_antipodal_def)
    moreover have "\<bar>3143108106954521 / 2 ^ 56 :: real\<bar> \<le> 1" by simp
    ultimately show ?thesis by blast
  next
    case False
    then have "cos_impl rt_antipodal r = fl (cos r)" by (simp add: rt_antipodal_def)
    with c [of r] show ?thesis by simp
  qed
  have 3: "num_le (Fin 0) y \<and> num_le (Fin 0) x \<longrightarrow> num_le (Fin 0) (atan2_impl rt_antipodal y x)" for y x
    by (simp add: rt_antipodal_def atan2_rounded_nonneg)
  from 1 2 3 show ?thesis unfolding libm_ok_def by blast
qed

lemma Math_sin_plain_unit: "\<exists>s. Math_sin rt_plain (Fin h) = Fin s \<and> \<bar>s\<bar> \<le> 1"
proof (cases "h = 0")
  case True
  then show ?thesis by (simp add: Math_sin_def)
next
  case False
  have "\<exists>s. fl (sin h) = Fin s \<and> \<bar>s\<bar> \<le> 1" by (rule fl_unit) simp
  with False show ?thesis by (simp add: Math_sin_def rt_plain_def)
qed

lemma Math_cos_plain_unit: "\<exists>k. Math_cos rt_plain (Fin h) = Fin k \<and> \<bar>k\<bar> \<le> 1"
proof (cases "h = 0")
  case True
  then show ?thesis by (simp add: Math_cos_def)
next
  case False
  have "\<exists>s. fl (cos h) = Fin s \<and> \<bar>s\<bar> \<le> 1" by (rule fl_unit) simp
  with False show ?thesis by (simp add: Math_cos_def rt_plain_def)
qed

subsection \<open>Geodesic distance\<close>


lemma haversineDistance_cases:
  assumes "libm_ok rt"
  shows "haversineDistance rt c1 c2 = NaN \<or> num_le (Fin 0) (haversineDistance rt c1 c2)"
proof -
  let ?a = "haversine_a rt c1 c2"
  let ?y = "Math_sqrt ?a" and ?x = "Math_sqrt (num_sub (Fin 1) ?a)"
  from assms have at: "\<forall>y x. num_le (Fin 0) y \<and> num_le (Fin 0) x \<longrightarrow> num_le (Fin 0) (atan2_impl rt y x)"
    by (simp add: libm_ok_def)
  show ?thesis
  proof (cases "?y = NaN \<or> ?x = NaN")
    case True
    then have "Math_atan2 rt ?y ?x = NaN" by (rule Math_atan2_NaN)
    then show ?thesis by (simp add: haversineDistance_def Let_def num_mul_NaN)
  next
    case False
    with Math_sqrt_cases [of ?a] Math_sqrt_cases [of "num_sub (Fin 1) ?a"]
    have "num_le (Fin 0) ?y" "num_le (Fin 0) ?x" by auto
    with at have c: "num_le (Fin 0) (Math_atan2 rt ?y ?x)" by (rule Math_atan2_nonneg)
    have c2: "num_le (Fin 0) (num_mul (Fin 2) (Math_atan2 rt ?y ?x))"
      by (rule num_mul_nonneg [OF _ c]) simp
    have "num_le (Fin 0) (num_mul (Fin 6371000) (num_mul (Fin 2) (Math_atan2 rt ?y ?x)))"
      by (rule num_mul_nonneg [OF _ c2]) simp
    then show ?thesis by (simp add: haversineDistance_def Let_def)
  qed
qed






lemma haversineDistance_double:
  assumes "haversineDistance rt c1 c2 = Fin r"
  shows "is_double r" and "\<bar>r\<bar> < pow2 1024"
proof -
  let ?c = "num_mul (Fin 2) (Math_atan2 rt (Math_sqrt (haversine_a rt c1 c2))
      (Math_sqrt (num_sub (Fin 1) (haversine_a rt c1 c2))))"
  from assms have m: "num_mul (Fin 6371000) ?c = Fin r" by (simp add: haversineDistance_def Let_def)
  then obtain x where "fl x = Fin r"
    by (cases ?c) (auto simp: num_mul_def signed_inf_def split: if_splits)
  then show "is_double r" and "\<bar>r\<bar> < pow2 1024"
    by (rule fl_is_double, rule fl_Fin_range)
qed

lemma num_add_zero_haversine:
  "num_add (Fin 0) (haversineDistance rt c1 c2) = haversineDistance rt c1 c2"
proof (cases "haversineDistance rt c1 c2")
  case (Fin r)
  from haversineDistance_double [OF this] have "fl r = Fin r" by (rule fl_exact)
  with Fin show ?thesis by (simp add: num_add_def)
qed (simp_all add: num_add_def)


lemma radians_bounded:
  assumes "\<bar>y\<bar> \<le> 2 ^ 1021"
  shows "\<exists>r. num_div (num_mul (Fin y) (Fin Math_PI)) (Fin 180) = Fin r \<and> \<bar>r\<bar> \<le> pow2 1023"
proof -
  have t: "is_double (pow2 1023)" by (rule is_double_pow2) simp
  have lt: "pow2 1023 < pow2 1024" by (simp add: pow2_less_iff)
  have p: "pow2 1023 = 4 * 2 ^ 1021" by (simp add: pow2_def)
  have "\<bar>y * Math_PI\<bar> = \<bar>y\<bar> * Math_PI" using Math_PI_pos by (simp add: abs_mult)
  also have "\<dots> \<le> 2 ^ 1021 * 4" using assms Math_PI_pos by (intro mult_mono) simp_all
  finally have "\<bar>y * Math_PI\<bar> \<le> pow2 1023" unfolding p by simp
  with t obtain r where r: "fl (y * Math_PI) = Fin r" "\<bar>r\<bar> \<le> pow2 1023"
    using fl_abs_le [OF t _ lt] by blast
  have "\<bar>r / 180\<bar> \<le> \<bar>r\<bar>" by (simp add: abs_divide)
  with r(2) have "\<bar>r / 180\<bar> \<le> pow2 1023" by simp
  then obtain r' where "fl (r / 180) = Fin r'" "\<bar>r'\<bar> \<le> pow2 1023" using fl_abs_le [OF t _ lt] by blast
  with r(1) show ?thesis by (simp add: num_mul_def num_div_def)
qed

lemma half_bounded:
  assumes "\<bar>r\<bar> \<le> pow2 1023"
  shows "\<exists>h. num_div (Fin r) (Fin 2) = Fin h"
proof -
  have t: "is_double (pow2 1023)" by (rule is_double_pow2) simp
  have lt: "pow2 1023 < pow2 1024" by (simp add: pow2_less_iff)
  from assms have "\<bar>r / 2\<bar> \<le> pow2 1023" by simp
  then obtain h where "fl (r / 2) = Fin h" using fl_abs_le [OF t _ lt] by blast
  then show ?thesis by (simp add: num_div_Fin)
qed

lemma haversine_a_meridian:
  "\<exists>r. haversine_a rt_plain (0, 0) (0, 1) = Fin r \<and> 0 \<le> r \<and> r \<le> 1"
proof -
  have lat1: "num_div (num_mul (Fin 0) (Fin Math_PI)) (Fin 180) = Fin 0"
    by (simp add: num_Fin_simps fl_0)
  from radians_bounded [of 1] obtain l where
    l: "num_div (num_mul (Fin 1) (Fin Math_PI)) (Fin 180) = Fin l" "\<bar>l\<bar> \<le> pow2 1023" by auto
  from half_bounded [OF l(2)] obtain h where h: "num_div (Fin l) (Fin 2) = Fin h" ..
  from Math_sin_plain_unit [of h] obtain s where s: "Math_sin rt_plain (Fin h) = Fin s" "\<bar>s\<bar> \<le> 1"
    by blast
  from Math_cos_plain_unit [of l] obtain k where k: "Math_cos rt_plain (Fin l) = Fin k" "\<bar>k\<bar> \<le> 1"
    by blast
  have "\<bar>s * s\<bar> = \<bar>s\<bar> * \<bar>s\<bar>" by (simp add: abs_mult)
  also from s(2) have "\<dots> \<le> 1 * 1" by (intro mult_mono) simp_all
  finally have "s * s \<le> 1" by simp
  with fl_upper [OF is_double_1 _ _ one_less_pow2_1024, of "s * s"]
  obtain q where q: "fl (s * s) = Fin q" "0 \<le> q" "q \<le> 1" by auto
  from fl_unit [of k] k(2) obtain k' where k': "fl k = Fin k'" by auto
  have d1: "num_sub (Fin 1) (Fin 0) = Fin 1" by (simp add: num_Fin_simps fl_1)
  have d0: "num_sub (Fin 0) (Fin 0) = Fin 0" by (simp add: num_Fin_simps fl_0)
  have z: "num_div (Fin 0) (Fin 2) = Fin 0"
    by (simp add: num_Fin_simps fl_0)
  have c0: "Math_cos rt_plain (Fin 0) = Fin 1" by (simp add: Math_cos_def)
  have "haversine_a rt_plain (0, 0) (0, 1) =
      num_add (num_mul (Fin s) (Fin s)) (num_mul (num_mul (num_mul (Fin 1) (Fin k)) (Fin 0)) (Fin 0))"
    unfolding haversine_a_def Let_def fst_conv snd_conv d1 d0 lat1 l h s z k c0 Math_sin_0 ..
  also have "\<dots> = Fin q" by (simp add: num_Fin_simps q k' fl_0 fl_idem [OF q(1)])
  finally show ?thesis using q by blast
qed

lemma haversine_defined:
  assumes "libm_ok rt" and "haversine_a rt c1 c2 = Fin r" and "0 \<le> r" and "r \<le> 1"
  shows "num_le (Fin 0) (haversineDistance rt c1 c2)"
proof -
  from assms(1) have at: "\<forall>y x. num_le (Fin 0) y \<and> num_le (Fin 0) x \<longrightarrow> num_le (Fin 0) (atan2_impl rt y x)"
    by (simp add: libm_ok_def)
  from assms(3) have y: "num_le (Fin 0) (Math_sqrt (Fin r))"
    by (simp add: Math_sqrt_def fl_nonneg_le)
  from assms(3,4) fl_upper [OF is_double_1 _ _ one_less_pow2_1024, of "1 - r"]
  obtain q where q: "fl (1 - r) = Fin q" "0 \<le> q" by auto
  then have x: "num_le (Fin 0) (Math_sqrt (num_sub (Fin 1) (Fin r)))"
    by (simp add: num_sub_Fin Math_sqrt_def fl_nonneg_le)
  from at y x have c: "num_le (Fin 0) (Math_atan2 rt (Math_sqrt (Fin r)) (Math_sqrt (num_sub (Fin 1) (Fin r))))"
    by (rule Math_atan2_nonneg)
  have c2: "num_le (Fin 0) (num_mul (Fin 2) (Math_atan2 rt (Math_sqrt (Fin r)) (Math_sqrt (num_sub (Fin 1) (Fin r)))))"
    by (rule num_mul_nonneg [OF _ c]) simp
  have "num_le (Fin 0) (num_mul (Fin 6371000)
      (num_mul (Fin 2) (Math_atan2 rt (Math_sqrt (Fin r)) (Math_sqrt (num_sub (Fin 1) (Fin r))))))"
    by (rule num_mul_nonneg [OF _ c2]) simp
  then show ?thesis by (simp add: haversineDistance_def Let_def assms(2))
qed

lemma haversineDistance_meridian: "num_le (Fin 0) (haversineDistance rt_plain (0, 0) (0, 1))"
proof -
  from haversine_a_meridian obtain r where
    "haversine_a rt_plain (0, 0) (0, 1) = Fin r" "0 \<le> r" "r \<le> 1" by blast
  with libm_ok_plain show ?thesis by (rule haversine_defined)
qed

text \<open>
  The distance between \<open>[-179, -87.5]\<close> and \<open>[1, 87.5]\<close>, operation by operation
  (lines 40-53): the quantity \<open>a\<close> comes to \<open>1 + 2^-52\<close>, so that \<open>1 - a\<close> is negative and
  its square root \<open>NaN\<close>.
\<close>

lemma anti_lat1_mul: "num_mul (Fin (- (175 / 2))) (Fin Math_PI) = Fin (- (4835904713300691 / 2 ^ 44))"
proof -
  have "num_mul (Fin (- (175 / 2))) (Fin Math_PI) = fl ((- (175 / 2)) * Math_PI)"
    by (simp add: num_mul_Fin)
  also have "\<dots> = Fin (- (4835904713300691 / 2 ^ 44))"
    by (rule fl_evalI [where e = "8" and k = "- 4835904713300691"])
      (simp_all add: pow2_def round_even_def Let_def Math_PI_def)
  finally show ?thesis .
qed

lemma anti_lat1: "num_div (Fin (- (4835904713300691 / 2 ^ 44))) (Fin 180) = Fin (- (6877731147805427 / 2 ^ 52))"
proof -
  have "num_div (Fin (- (4835904713300691 / 2 ^ 44))) (Fin 180) = fl ((- (4835904713300691 / 2 ^ 44)) / 180)"
    by (simp add: num_div_Fin)
  also have "\<dots> = Fin (- (6877731147805427 / 2 ^ 52))"
    by (rule fl_evalI [where e = "0" and k = "- 6877731147805427"])
      (simp_all add: pow2_def round_even_def Let_def Math_PI_def)
  finally show ?thesis .
qed

lemma anti_lat2_mul: "num_mul (Fin (175 / 2)) (Fin Math_PI) = Fin (4835904713300691 / 2 ^ 44)"
proof -
  have "num_mul (Fin (175 / 2)) (Fin Math_PI) = fl ((175 / 2) * Math_PI)"
    by (simp add: num_mul_Fin)
  also have "\<dots> = Fin (4835904713300691 / 2 ^ 44)"
    by (rule fl_evalI [where e = "8" and k = "4835904713300691"])
      (simp_all add: pow2_def round_even_def Let_def Math_PI_def)
  finally show ?thesis .
qed

lemma anti_lat2: "num_div (Fin (4835904713300691 / 2 ^ 44)) (Fin 180) = Fin (6877731147805427 / 2 ^ 52)"
proof -
  have "num_div (Fin (4835904713300691 / 2 ^ 44)) (Fin 180) = fl ((4835904713300691 / 2 ^ 44) / 180)"
    by (simp add: num_div_Fin)
  also have "\<dots> = Fin (6877731147805427 / 2 ^ 52)"
    by (rule fl_evalI [where e = "0" and k = "6877731147805427"])
      (simp_all add: pow2_def round_even_def Let_def Math_PI_def)
  finally show ?thesis .
qed

lemma anti_dlat_sub: "num_sub (Fin (175 / 2)) (Fin (- (175 / 2))) = Fin 175"
proof -
  have "num_sub (Fin (175 / 2)) (Fin (- (175 / 2))) = fl ((175 / 2) - (- (175 / 2)))"
    by (simp add: num_sub_Fin)
  also have "\<dots> = Fin 175"
    by (rule fl_evalI [where e = "7" and k = "6157265115545600"])
      (simp_all add: pow2_def round_even_def Let_def Math_PI_def)
  finally show ?thesis .
qed

lemma anti_dlat_mul: "num_mul (Fin 175) (Fin Math_PI) = Fin (4835904713300691 / 2 ^ 43)"
proof -
  have "num_mul (Fin 175) (Fin Math_PI) = fl (175 * Math_PI)"
    by (simp add: num_mul_Fin)
  also have "\<dots> = Fin (4835904713300691 / 2 ^ 43)"
    by (rule fl_evalI [where e = "9" and k = "4835904713300691"])
      (simp_all add: pow2_def round_even_def Let_def Math_PI_def)
  finally show ?thesis .
qed

lemma anti_dlat: "num_div (Fin (4835904713300691 / 2 ^ 43)) (Fin 180) = Fin (6877731147805427 / 2 ^ 51)"
proof -
  have "num_div (Fin (4835904713300691 / 2 ^ 43)) (Fin 180) = fl ((4835904713300691 / 2 ^ 43) / 180)"
    by (simp add: num_div_Fin)
  also have "\<dots> = Fin (6877731147805427 / 2 ^ 51)"
    by (rule fl_evalI [where e = "1" and k = "6877731147805427"])
      (simp_all add: pow2_def round_even_def Let_def Math_PI_def)
  finally show ?thesis .
qed

lemma anti_dlat_half: "num_div (Fin (6877731147805427 / 2 ^ 51)) (Fin 2) = Fin (6877731147805427 / 2 ^ 52)"
proof -
  have "num_div (Fin (6877731147805427 / 2 ^ 51)) (Fin 2) = fl ((6877731147805427 / 2 ^ 51) / 2)"
    by (simp add: num_div_Fin)
  also have "\<dots> = Fin (6877731147805427 / 2 ^ 52)"
    by (rule fl_evalI [where e = "0" and k = "6877731147805427"])
      (simp_all add: pow2_def round_even_def Let_def Math_PI_def)
  finally show ?thesis .
qed

lemma anti_dlng_sub: "num_sub (Fin 1) (Fin (- 179)) = Fin 180"
proof -
  have "num_sub (Fin 1) (Fin (- 179)) = fl (1 - (- 179))"
    by (simp add: num_sub_Fin)
  also have "\<dots> = Fin 180"
    by (rule fl_evalI [where e = "7" and k = "6333186975989760"])
      (simp_all add: pow2_def round_even_def Let_def Math_PI_def)
  finally show ?thesis .
qed

lemma anti_dlng_mul: "num_mul (Fin 180) (Fin Math_PI) = Fin (4974073419394997 / 2 ^ 43)"
proof -
  have "num_mul (Fin 180) (Fin Math_PI) = fl (180 * Math_PI)"
    by (simp add: num_mul_Fin)
  also have "\<dots> = Fin (4974073419394997 / 2 ^ 43)"
    by (rule fl_evalI [where e = "9" and k = "4974073419394997"])
      (simp_all add: pow2_def round_even_def Let_def Math_PI_def)
  finally show ?thesis .
qed

lemma anti_dlng: "num_div (Fin (4974073419394997 / 2 ^ 43)) (Fin 180) = Fin (884279719003555 / 2 ^ 48)"
proof -
  have "num_div (Fin (4974073419394997 / 2 ^ 43)) (Fin 180) = fl ((4974073419394997 / 2 ^ 43) / 180)"
    by (simp add: num_div_Fin)
  also have "\<dots> = Fin (884279719003555 / 2 ^ 48)"
    by (rule fl_evalI [where e = "1" and k = "7074237752028440"])
      (simp_all add: pow2_def round_even_def Let_def Math_PI_def)
  finally show ?thesis .
qed

lemma anti_dlng_half: "num_div (Fin (884279719003555 / 2 ^ 48)) (Fin 2) = Fin (884279719003555 / 2 ^ 49)"
proof -
  have "num_div (Fin (884279719003555 / 2 ^ 48)) (Fin 2) = fl ((884279719003555 / 2 ^ 48) / 2)"
    by (simp add: num_div_Fin)
  also have "\<dots> = Fin (884279719003555 / 2 ^ 49)"
    by (rule fl_evalI [where e = "0" and k = "7074237752028440"])
      (simp_all add: pow2_def round_even_def Let_def Math_PI_def)
  finally show ?thesis .
qed

lemma anti_sin_sq: "num_mul (Fin (8998626396882423 / 2 ^ 53)) (Fin (8998626396882423 / 2 ^ 53)) = Fin (4495030849242473 / 2 ^ 52)"
proof -
  have "num_mul (Fin (8998626396882423 / 2 ^ 53)) (Fin (8998626396882423 / 2 ^ 53)) = fl ((8998626396882423 / 2 ^ 53) * (8998626396882423 / 2 ^ 53))"
    by (simp add: num_mul_Fin)
  also have "\<dots> = Fin (4495030849242473 / 2 ^ 52)"
    by (rule fl_evalI [where e = "- 1" and k = "8990061698484946"])
      (simp_all add: pow2_def round_even_def Let_def Math_PI_def)
  finally show ?thesis .
qed

lemma anti_cos_cos: "num_mul (Fin (3143108106954521 / 2 ^ 56)) (Fin (3143108106954521 / 2 ^ 56)) = Fin (4387214401548093 / 2 ^ 61)"
proof -
  have "num_mul (Fin (3143108106954521 / 2 ^ 56)) (Fin (3143108106954521 / 2 ^ 56)) = fl ((3143108106954521 / 2 ^ 56) * (3143108106954521 / 2 ^ 56))"
    by (simp add: num_mul_Fin)
  also have "\<dots> = Fin (4387214401548093 / 2 ^ 61)"
    by (rule fl_evalI [where e = "- 10" and k = "8774428803096186"])
      (simp_all add: pow2_def round_even_def Let_def Math_PI_def)
  finally show ?thesis .
qed

lemma anti_cos_sin: "num_mul (Fin (4387214401548093 / 2 ^ 61)) (Fin 1) = Fin (4387214401548093 / 2 ^ 61)"
proof -
  have "num_mul (Fin (4387214401548093 / 2 ^ 61)) (Fin 1) = fl ((4387214401548093 / 2 ^ 61) * 1)"
    by (simp add: num_mul_Fin)
  also have "\<dots> = Fin (4387214401548093 / 2 ^ 61)"
    by (rule fl_evalI [where e = "- 10" and k = "8774428803096186"])
      (simp_all add: pow2_def round_even_def Let_def Math_PI_def)
  finally show ?thesis .
qed

lemma anti_a: "num_add (Fin (4495030849242473 / 2 ^ 52)) (Fin (4387214401548093 / 2 ^ 61)) = Fin (4503599627370497 / 2 ^ 52)"
proof -
  have "num_add (Fin (4495030849242473 / 2 ^ 52)) (Fin (4387214401548093 / 2 ^ 61)) = fl ((4495030849242473 / 2 ^ 52) + (4387214401548093 / 2 ^ 61))"
    by (simp add: num_add_Fin)
  also have "\<dots> = Fin (4503599627370497 / 2 ^ 52)"
    by (rule fl_evalI [where e = "0" and k = "4503599627370497"])
      (simp_all add: pow2_def round_even_def Let_def Math_PI_def)
  finally show ?thesis .
qed

lemma anti_one_minus_a: "num_sub (Fin 1) (Fin (4503599627370497 / 2 ^ 52)) = Fin (- (1 / 2 ^ 52))"
proof -
  have "num_sub (Fin 1) (Fin (4503599627370497 / 2 ^ 52)) = fl (1 - (4503599627370497 / 2 ^ 52))"
    by (simp add: num_sub_Fin)
  also have "\<dots> = Fin (- (1 / 2 ^ 52))"
    by (rule fl_evalI [where e = "- 52" and k = "- 4503599627370496"])
      (simp_all add: pow2_def round_even_def Let_def Math_PI_def)
  finally show ?thesis .
qed

lemma anti_sin_dlat:
  "Math_sin rt_antipodal (Fin (6877731147805427 / 2 ^ 52)) = Fin (8998626396882423 / 2 ^ 53)"
  by (simp add: Math_sin_def rt_antipodal_def)

lemma anti_sin_dlng:
  "Math_sin rt_antipodal (Fin (884279719003555 / 2 ^ 49)) = Fin 1"
  by (simp add: Math_sin_def rt_antipodal_def)

lemma anti_cos_lat1:
  "Math_cos rt_antipodal (Fin (- (6877731147805427 / 2 ^ 52))) = Fin (3143108106954521 / 2 ^ 56)"
  by (simp add: Math_cos_def rt_antipodal_def)

lemma anti_cos_lat2:
  "Math_cos rt_antipodal (Fin (6877731147805427 / 2 ^ 52)) = Fin (3143108106954521 / 2 ^ 56)"
  by (simp add: Math_cos_def rt_antipodal_def)

lemma haversine_a_antipodal:
  "haversine_a rt_antipodal (- 179, - (175 / 2)) (1, 175 / 2) = Fin (4503599627370497 / 2 ^ 52)"
  unfolding haversine_a_def Let_def fst_conv snd_conv
  by (simp only: anti_lat1_mul anti_lat1 anti_lat2_mul anti_lat2 anti_dlat_sub anti_dlat_mul
      anti_dlat anti_dlat_half anti_dlng_sub anti_dlng_mul anti_dlng anti_dlng_half
      anti_sin_dlat anti_sin_dlng anti_cos_lat1 anti_cos_lat2
      anti_sin_sq anti_cos_cos anti_cos_sin anti_a)

lemma haversineDistance_antipodal:
  "haversineDistance rt_antipodal (- 179, - (175 / 2)) (1, 175 / 2) = NaN"
  unfolding haversineDistance_def Let_def haversine_a_antipodal anti_one_minus_a
  by (simp add: Math_sqrt_def Math_atan2_def num_mul_def)




subsection \<open>Cumulative distances\<close>

lemma length_cumulative_loop: "length (cumulative_loop rt prev cs t) = length cs"
  by (induction cs arbitrary: prev t) (simp_all add: Let_def)

lemma cumulative_loop_nth:
  "i < length cs \<Longrightarrow>
   (t # cumulative_loop rt prev cs t) ! Suc i =
   num_add ((t # cumulative_loop rt prev cs t) ! i)
     (haversineDistance rt ((prev # cs) ! i) ((prev # cs) ! Suc i))"
proof (induction cs arbitrary: prev t i)
  case Nil
  then show ?case by simp
next
  case (Cons c cs)
  show ?case
  proof (cases i)
    case 0
    then show ?thesis by (simp add: Let_def)
  next
    case (Suc j)
    with Cons.prems have "j < length cs" by simp
    from Cons.IH [OF this, of "num_add t (haversineDistance rt prev c)" c]
    show ?thesis using Suc by (simp add: Let_def)
  qed
qed

lemma cumulative_loop_ge:
  assumes "libm_ok rt"
    and "x \<in> set (cumulative_loop rt prev cs t)" and "x \<noteq> NaN"
    and "t = PosInf \<or> (\<exists>r. t = Fin r \<and> 0 \<le> r \<and> is_double r)"
  shows "num_le t x"
  using assms(2-)
proof (induction cs arbitrary: prev t)
  case Nil
  then show ?case by simp
next
  case (Cons c cs)
  let ?d = "haversineDistance rt prev c"
  let ?t = "num_add t ?d"
  from Cons.prems(1) have mem: "x = ?t \<or> x \<in> set (cumulative_loop rt c cs ?t)"
    by (simp add: Let_def)
  have t': "?t \<noteq> NaN"
  proof
    assume n: "?t = NaN"
    have "y \<in> set (cumulative_loop rt p ds NaN) \<Longrightarrow> y = NaN" for y p ds
      by (induction ds arbitrary: p) (auto simp: Let_def num_add_NaN)
    with mem n Cons.prems(2) show False by auto
  qed
  then have "?d \<noteq> NaN" using num_add_not_NaN by blast
  with haversineDistance_cases [OF assms(1), of prev c] have d: "num_le (Fin 0) ?d" by blast
  note s = running_total_step [OF Cons.prems(3) d]
  from mem show ?case
  proof
    assume "x = ?t"
    with s(1) show ?thesis by simp
  next
    assume "x \<in> set (cumulative_loop rt c cs ?t)"
    from Cons.IH [OF this Cons.prems(2) s(2)] have "num_le ?t x" .
    with s(1) show ?thesis by (rule num_le_trans)
  qed
qed

lemma cumulative_loop_ordered:
  assumes "libm_ok rt"
    and "t = PosInf \<or> (\<exists>r. t = Fin r \<and> 0 \<le> r \<and> is_double r)"
    and "i \<le> j" and "j \<le> length cs" and "(t # cumulative_loop rt prev cs t) ! j \<noteq> NaN"
  shows "num_le ((t # cumulative_loop rt prev cs t) ! i) ((t # cumulative_loop rt prev cs t) ! j)"
  using assms(2-)
proof (induction cs arbitrary: prev t i j)
  case Nil
  then show ?case by (auto intro: num_le_refl)
next
  case (Cons c cs)
  let ?d = "haversineDistance rt prev c"
  let ?t = "num_add t ?d"
  let ?L = "t # cumulative_loop rt prev (c # cs) t"
  have L: "?L = t # ?t # cumulative_loop rt c cs ?t" by (simp add: Let_def)
  show ?case
  proof (cases j)
    case 0
    with Cons.prems show ?thesis by (auto intro: num_le_refl)
  next
    case (Suc j')
    with Cons.prems(3) have j': "j' \<le> length cs" by simp
    from Suc have xj: "?L ! j = (?t # cumulative_loop rt c cs ?t) ! j'" by (simp add: Let_def)
    with Cons.prems(4) have nn: "(?t # cumulative_loop rt c cs ?t) ! j' \<noteq> NaN" by simp
    from j' have "(?t # cumulative_loop rt c cs ?t) ! j' \<in> set (cumulative_loop rt prev (c # cs) t)"
      by (simp add: Let_def length_cumulative_loop del: set_ConsD)
        (metis length_Cons length_cumulative_loop less_Suc_eq_le nth_mem set_ConsD list.set_intros nth_Cons_0 nth_Cons_Suc)
    from cumulative_loop_ge [OF assms(1) this nn Cons.prems(1)]
    have ge: "num_le t (?L ! j)" unfolding xj .
    show ?thesis
    proof (cases i)
      case 0
      with ge show ?thesis by simp
    next
      case (Suc i')
      with \<open>j = Suc j'\<close> Cons.prems(2) have ij: "i' \<le> j'" by simp
      have t': "?t \<noteq> NaN"
      proof
        assume n: "?t = NaN"
        have "y \<in> set (NaN # cumulative_loop rt p ds NaN) \<Longrightarrow> y = NaN" for y p ds
          by (induction ds arbitrary: p) (auto simp: Let_def num_add_NaN)
        moreover from j' have "(?t # cumulative_loop rt c cs ?t) ! j' \<in> set (?t # cumulative_loop rt c cs ?t)"
          by (intro nth_mem) (simp add: length_cumulative_loop)
        ultimately show False using nn n by auto
      qed
      then have "?d \<noteq> NaN" using num_add_not_NaN by blast
      with haversineDistance_cases [OF assms(1), of prev c] have d: "num_le (Fin 0) ?d" by blast
      note s = running_total_step [OF Cons.prems(1) d]
      from Cons.IH [OF s(2) ij j' nn]
      show ?thesis using Suc \<open>j = Suc j'\<close> by (simp add: Let_def)
    qed
  qed
qed

lemma calculateCumulativeDistances_Cons:
  "calculateCumulativeDistances rt (c # cs) = Fin 0 # cumulative_loop rt c cs (Fin 0)"
  by (simp add: calculateCumulativeDistances_def)

lemma running_total_0: "Fin 0 = PosInf \<or> (\<exists>r. Fin 0 = Fin r \<and> 0 \<le> r \<and> is_double r)"
  by (simp add: is_double_0)

lemma cumulative_two:
  "calculateCumulativeDistances rt [a, b] = [Fin 0, haversineDistance rt a b]"
  by (simp add: calculateCumulativeDistances_def Let_def num_add_zero_haversine)

text \<open>
  Claim C7, amended. On a runtime as in claim C8 and for every non-empty coordinate
  sequence, \<open>calculateCumulativeDistances\<close> returns a sequence of the length of its
  input, whose first element is 0, whose element \<open>i \<ge> 1\<close> is element \<open>i - 1\<close> plus the
  distance between coordinates \<open>i - 1\<close> and \<open>i\<close> (a rounded sum), and in which every
  element that is not \<open>NaN\<close> is at least every element before it: the sequence is
  non-decreasing up to the first distance that is \<open>NaN\<close>, and \<open>NaN\<close> from there on.
\<close>

theorem cumulative_distances_ordered_up_to_nan:
  assumes "libm_ok rt" and "seq \<noteq> []"
  shows "length (calculateCumulativeDistances rt seq) = length seq
       \<and> calculateCumulativeDistances rt seq ! 0 = Fin 0
       \<and> (\<forall>i. 1 \<le> i \<and> i < length seq \<longrightarrow>
             calculateCumulativeDistances rt seq ! i =
             num_add (calculateCumulativeDistances rt seq ! (i - 1))
               (haversineDistance rt (seq ! (i - 1)) (seq ! i)))
       \<and> (\<forall>i j. i \<le> j \<and> j < length seq \<and> calculateCumulativeDistances rt seq ! j \<noteq> NaN \<longrightarrow>
             num_le (calculateCumulativeDistances rt seq ! i) (calculateCumulativeDistances rt seq ! j))"
proof -
  from assms(2) obtain c cs where seq: "seq = c # cs" by (cases seq) auto
  have 1: "length (calculateCumulativeDistances rt seq) = length seq"
    unfolding seq calculateCumulativeDistances_Cons by (simp add: length_cumulative_loop)
  have 2: "calculateCumulativeDistances rt seq ! 0 = Fin 0"
    unfolding seq calculateCumulativeDistances_Cons by simp
  have 3: "calculateCumulativeDistances rt seq ! i =
             num_add (calculateCumulativeDistances rt seq ! (i - 1))
               (haversineDistance rt (seq ! (i - 1)) (seq ! i))"
    if "1 \<le> i \<and> i < length seq" for i
  proof -
    from that obtain j where i: "i = Suc j" by (cases i) auto
    with that have "j < length cs" by (simp add: seq)
    from cumulative_loop_nth [OF this, of "Fin 0" rt c] show ?thesis
      unfolding seq calculateCumulativeDistances_Cons i by simp
  qed
  have 4: "num_le (calculateCumulativeDistances rt seq ! i) (calculateCumulativeDistances rt seq ! j)"
    if "i \<le> j \<and> j < length seq \<and> calculateCumulativeDistances rt seq ! j \<noteq> NaN" for i j
  proof -
    from that have j: "j \<le> length cs" by (simp add: seq)
    from that have n: "(Fin 0 # cumulative_loop rt c cs (Fin 0)) ! j \<noteq> NaN"
      unfolding seq calculateCumulativeDistances_Cons by simp
    from that have ij: "i \<le> j" by simp
    from cumulative_loop_ordered [OF assms(1) running_total_0 ij j n]
    show ?thesis unfolding seq calculateCumulativeDistances_Cons .
  qed
  from 1 2 3 4 show ?thesis by blast
qed

theorem cumulative_distances_ordered_up_to_nan_witness:
  "libm_ok rt_plain
   \<and> [(0 :: real, 0 :: real), (0, 1)] \<noteq> []
   \<and> length (calculateCumulativeDistances rt_plain [(0, 0), (0, 1)]) = 2
   \<and> calculateCumulativeDistances rt_plain [(0, 0), (0, 1)] ! 0 = Fin 0
   \<and> calculateCumulativeDistances rt_plain [(0, 0), (0, 1)] ! 1 = haversineDistance rt_plain (0, 0) (0, 1)
   \<and> calculateCumulativeDistances rt_plain [(0, 0), (0, 1)] ! 1 \<noteq> NaN
   \<and> num_le (calculateCumulativeDistances rt_plain [(0, 0), (0, 1)] ! 0)
        (calculateCumulativeDistances rt_plain [(0, 0), (0, 1)] ! 1)"
proof -
  let ?ds = "calculateCumulativeDistances rt_plain [(0, 0), (0, 1)]"
  have ne: "[(0 :: real, 0 :: real), (0, 1)] \<noteq> []" by simp
  note t = cumulative_distances_ordered_up_to_nan [OF libm_ok_plain ne]
  from t have l: "length ?ds = 2" by simp
  from t have z: "?ds ! 0 = Fin 0" by blast
  from t have "?ds ! 1 = num_add (?ds ! (1 - 1)) (haversineDistance rt_plain ([(0, 0), (0, 1)] ! (1 - 1)) ([(0, 0), (0, 1)] ! 1))"
    by simp
  with z have o: "?ds ! 1 = haversineDistance rt_plain (0, 0) (0, 1)"
    by (simp add: num_add_zero_haversine)
  from haversineDistance_meridian have n: "?ds ! 1 \<noteq> NaN" unfolding o by (auto simp: num_le_def)
  from t have "(0 :: nat) \<le> 1 \<and> (1 :: nat) < length [(0 :: real, 0 :: real), (0, 1)] \<and> ?ds ! 1 \<noteq> NaN
      \<longrightarrow> num_le (?ds ! 0) (?ds ! 1)" by blast
  with n have m: "num_le (?ds ! 0) (?ds ! 1)" by simp
  from libm_ok_plain ne l z o n m show ?thesis by blast
qed

text \<open>
  Claim C7 as stated fails on the path from \<open>[-179, -87.5]\<close> to \<open>[1, 87.5]\<close> and back: the
  first distance is \<open>NaN\<close>, so the result is \<open>[0, NaN, NaN]\<close>, which is not non-decreasing.
\<close>

theorem cumulative_distances_antipodal_counterexample:
  "libm_ok rt_antipodal
   \<and> calculateCumulativeDistances rt_antipodal coords_antipodal = [Fin 0, NaN, NaN]
   \<and> \<not> sorted_wrt num_le (calculateCumulativeDistances rt_antipodal coords_antipodal)"
proof -
  have "calculateCumulativeDistances rt_antipodal coords_antipodal = [Fin 0, NaN, NaN]"
    by (simp add: calculateCumulativeDistances_def coords_antipodal_def Let_def
        haversineDistance_antipodal num_add_NaN)
  with libm_ok_antipodal show ?thesis by (simp add: num_le_def)
qed

subsection \<open>Two coordinates\<close>

lemma sample_two: "sampleCoords [a, b] = [a, b]"
  by (simp add: sampleCoords_def sample_step_def maxPoints_def)

lemma coords_two_length: "\<not> length coords_two < 2"
  by (simp add: coords_two_def)

lemma sample_coords_two: "sampleCoords coords_two = [(0, 0), (0, 1)]"
  by (simp add: coords_two_def sample_two)

subsection \<open>Elevation gain and loss\<close>

lemma num_add_nonneg:
  assumes "num_le (Fin 0) g" and "num_less (Fin 0) d"
  shows "num_le (Fin 0) (num_add g d)"
proof (cases g; cases d)
  fix x y assume "g = Fin x" "d = Fin y"
  with assms show ?thesis using fl_nonneg_le [of "x + y"] by (simp add: num_Fin_simps)
qed (use assms in \<open>auto simp: num_le_def num_less_def num_add_def\<close>)

lemma num_abs_pos: "num_less d (Fin 0) \<Longrightarrow> num_less (Fin 0) (num_abs d)"
  by (cases d) (simp_all add: num_less_def num_abs_def)

lemma gain_loop_nonneg:
  "num_le (Fin 0) g \<Longrightarrow> num_le (Fin 0) (gain_loop rt prev es g)"
proof (induction es arbitrary: prev g)
  case Nil
  then show ?case by simp
next
  case (Cons e es)
  let ?diff = "num_sub (toNumber rt e) (toNumber rt prev)"
  show ?case
  proof (cases "num_less (Fin 0) ?diff")
    case True
    with Cons.prems have "num_le (Fin 0) (num_add g ?diff)" by (simp only: num_add_nonneg)
    then have "num_le (Fin 0) (gain_loop rt e es (num_add g ?diff))" by (rule Cons.IH)
    with True show ?thesis by (simp add: Let_def)
  next
    case False
    from Cons.prems have "num_le (Fin 0) (gain_loop rt e es g)" by (rule Cons.IH)
    with False show ?thesis by (simp add: Let_def)
  qed
qed

lemma loss_loop_nonneg:
  "num_le (Fin 0) l \<Longrightarrow> num_le (Fin 0) (loss_loop rt prev es l)"
proof (induction es arbitrary: prev l)
  case Nil
  then show ?case by simp
next
  case (Cons e es)
  let ?diff = "num_sub (toNumber rt e) (toNumber rt prev)"
  show ?case
  proof (cases "num_less ?diff (Fin 0)")
    case True
    then have "num_less (Fin 0) (num_abs ?diff)" by (rule num_abs_pos)
    with Cons.prems have "num_le (Fin 0) (num_add l (num_abs ?diff))"
      by (simp only: num_add_nonneg)
    then have "num_le (Fin 0) (loss_loop rt e es (num_add l (num_abs ?diff)))" by (rule Cons.IH)
    with True show ?thesis by (simp add: Let_def)
  next
    case False
    from Cons.prems have "num_le (Fin 0) (loss_loop rt e es l)" by (rule Cons.IH)
    with False show ?thesis by (simp add: Let_def)
  qed
qed

lemma fl_50: "fl 50 = Fin 50"
  using fl_int [of 50] by simp

lemma fl_30: "fl 30 = Fin 30" "fl (- 30) = Fin (- 30)"
  using fl_int [of 30] fl_int [of "- 30"] by simp_all

text \<open>
  Claim C10. For every sequence of elevations (of whatever values, under whatever
  conversion to numbers), \<open>calculateElevationGain\<close> and \<open>calculateElevationLoss\<close> return a
  number that is not negative, and 0 on a sequence of length 0 or 1.
\<close>

theorem gain_loss_nonneg:
  "num_le (Fin 0) (calculateElevationGain rt elevations)
   \<and> num_le (Fin 0) (calculateElevationLoss rt elevations)
   \<and> (length elevations \<le> 1 \<longrightarrow>
        calculateElevationGain rt elevations = Fin 0 \<and> calculateElevationLoss rt elevations = Fin 0)"
proof -
  have z: "num_le (Fin 0) (Fin 0)" by (simp add: num_le_Fin)
  have 1: "num_le (Fin 0) (calculateElevationGain rt elevations)"
    unfolding calculateElevationGain_def using z gain_loop_nonneg [OF z]
    by (cases elevations) simp_all
  have 2: "num_le (Fin 0) (calculateElevationLoss rt elevations)"
    unfolding calculateElevationLoss_def using z loss_loop_nonneg [OF z]
    by (cases elevations) simp_all
  have 3: "calculateElevationGain rt elevations = Fin 0 \<and> calculateElevationLoss rt elevations = Fin 0"
    if "length elevations \<le> 1"
  proof (cases elevations)
    case Nil
    then show ?thesis by (simp add: calculateElevationGain_def calculateElevationLoss_def)
  next
    case (Cons e es)
    with that have "es = []" by simp
    with Cons show ?thesis by (simp add: calculateElevationGain_def calculateElevationLoss_def)
  qed
  from 1 2 3 show ?thesis by blast
qed

theorem gain_loss_nonneg_witness:
  "length [JNum (Fin 100)] \<le> 1
   \<and> calculateElevationGain rt_plain [JNum (Fin 100)] = Fin 0
   \<and> calculateElevationLoss rt_plain [JNum (Fin 100)] = Fin 0
   \<and> num_le (Fin 0) (calculateElevationGain rt_plain [JNum (Fin 100), JNum (Fin 150), JNum (Fin 120)])
   \<and> calculateElevationGain rt_plain [JNum (Fin 100), JNum (Fin 150), JNum (Fin 120)] = Fin 50
   \<and> calculateElevationLoss rt_plain [JNum (Fin 100), JNum (Fin 150), JNum (Fin 120)] = Fin 30"
proof -
  have l: "length [JNum (Fin 100)] \<le> 1" by simp
  from gain_loss_nonneg [of rt_plain "[JNum (Fin 100)]"] l
  have a: "calculateElevationGain rt_plain [JNum (Fin 100)] = Fin 0
      \<and> calculateElevationLoss rt_plain [JNum (Fin 100)] = Fin 0" by blast
  from gain_loss_nonneg [of rt_plain "[JNum (Fin 100), JNum (Fin 150), JNum (Fin 120)]"]
  have b: "num_le (Fin 0) (calculateElevationGain rt_plain [JNum (Fin 100), JNum (Fin 150), JNum (Fin 120)])"
    by blast
  have c: "calculateElevationGain rt_plain [JNum (Fin 100), JNum (Fin 150), JNum (Fin 120)] = Fin 50"
    by (simp add: calculateElevationGain_def toNumber_def Let_def num_Fin_simps fl_50 fl_30)
  have d: "calculateElevationLoss rt_plain [JNum (Fin 100), JNum (Fin 150), JNum (Fin 120)] = Fin 30"
    by (simp add: calculateElevationLoss_def toNumber_def Let_def num_Fin_simps fl_50 fl_30)
  from l a b c d show ?thesis by blast
qed

subsection \<open>Gain minus loss\<close>



















subsection \<open>Minimum and maximum\<close>










subsection \<open>The statistics of a returned profile\<close>

lemma num_div_0: "num_div (Fin 0) (Fin 1000) = Fin 0"
  by (simp add: num_div_Fin fl_0)








subsection \<open>Input validation\<close>

text \<open>
  Claim C5. On an absent coordinate sequence and on one of length 0 or 1,
  \<open>getElevationProfile\<close> fails with the input error, and the list of requests issued is
  what it was: no provider has been queried.
\<close>

theorem short_input_is_rejected_before_any_query:
  "(case coordinates of None \<Rightarrow> True | Some cs \<Rightarrow> length cs < 2) \<Longrightarrow>
   getElevationProfile rt net tr coordinates = (Inl InvalidCoordinates, tr)"
  by (cases coordinates) (simp_all add: getElevationProfile_def)

theorem short_input_is_rejected_before_any_query_witness:
  "getElevationProfile rt_plain net_first_point_fails [] None = (Inl InvalidCoordinates, [])
   \<and> getElevationProfile rt_plain net_first_point_fails [] (Some []) = (Inl InvalidCoordinates, [])
   \<and> getElevationProfile rt_plain net_first_point_fails [] (Some [(0, 0)]) = (Inl InvalidCoordinates, [])"
  using short_input_is_rejected_before_any_query [of None rt_plain net_first_point_fails "[]"]
    short_input_is_rejected_before_any_query [of "Some []" rt_plain net_first_point_fails "[]"]
    short_input_is_rejected_before_any_query [of "Some [(0, 0)]" rt_plain net_first_point_fails "[]"]
  by simp

subsection \<open>The primary provider\<close>

lemma getSingle_trace: "snd (getSingleElevationUSGS3DEP rt net tr c) = tr @ [UsgsIdentify c]"
  by (simp add: getSingleElevationUSGS3DEP_def Let_def)

lemma usgs_loop_Cons:
  "usgs_loop rt net tr (c # cs) =
     ((case fst (getSingleElevationUSGS3DEP rt net tr c) of Inl e \<Rightarrow> JNum (Fin 0) | Inr v \<Rightarrow> v)
        # fst (usgs_loop rt net (tr @ [UsgsIdentify c]) cs),
      snd (usgs_loop rt net (tr @ [UsgsIdentify c]) cs))"
  by (simp add: getSingle_trace Let_def case_prod_beta)

lemma usgs_loop_trace: "snd (usgs_loop rt net tr cs) = tr @ map UsgsIdentify cs"
proof (induction cs arbitrary: tr)
  case Nil
  show ?case by simp
next
  case (Cons c cs)
  show ?case by (simp only: usgs_loop_Cons snd_conv Cons.IH list.map append_assoc append_Cons append_Nil)
qed

lemma usgs_loop_length: "length (fst (usgs_loop rt net tr cs)) = length cs"
proof (induction cs arbitrary: tr)
  case Nil
  show ?case by simp
next
  case (Cons c cs)
  show ?case by (simp only: usgs_loop_Cons fst_conv Cons.IH list.size)
qed

lemma usgs_loop_nth:
  "i < length cs \<Longrightarrow>
   fst (usgs_loop rt net tr cs) ! i =
     (case fst (getSingleElevationUSGS3DEP rt net (tr @ map UsgsIdentify (take i cs)) (cs ! i)) of
        Inl e \<Rightarrow> JNum (Fin 0) | Inr v \<Rightarrow> v)"
proof (induction cs arbitrary: tr i)
  case Nil
  then show ?case by simp
next
  case (Cons c cs)
  show ?case
  proof (cases i)
    case 0
    then show ?thesis by (simp only: usgs_loop_Cons fst_conv nth_Cons_0 take_0 list.map append_Nil2)
  next
    case (Suc j)
    with Cons.prems have j: "j < length cs" by simp
    from Cons.IH [OF j, of "tr @ [UsgsIdentify c]"] show ?thesis
      unfolding Suc usgs_loop_Cons by simp
  qed
qed

lemma primary_never_raises:
  "\<exists>pts. getElevationFromUSGS3DEP rt net tr coordinates =
           (Inr pts, tr @ map UsgsIdentify (sampleCoords coordinates))"
  by (simp add: getElevationFromUSGS3DEP_def Let_def case_prod_beta usgs_loop_trace)

text \<open>
  Claim C4. Whatever the network answers, the primary provider's attempt does not fail: it
  queries every sampled point, in order, and returns one sample per sampled point, whose
  elevation is 0 where the query of that point failed and the value the query returned
  otherwise.
\<close>

theorem per_point_failure_is_local:
  "\<exists>pts. getElevationFromUSGS3DEP rt net tr coordinates =
           (Inr pts, tr @ map UsgsIdentify (sampleCoords coordinates))
        \<and> length pts = length (sampleCoords coordinates)
        \<and> (\<forall>i. i < length (sampleCoords coordinates) \<longrightarrow>
              elevation (pts ! i) =
                (case fst (getSingleElevationUSGS3DEP rt net
                             (tr @ map UsgsIdentify (take i (sampleCoords coordinates)))
                             (sampleCoords coordinates ! i)) of
                   Inl e \<Rightarrow> JNum (Fin 0)
                 | Inr v \<Rightarrow> v))"
proof -
  let ?cs = "sampleCoords coordinates"
  obtain es tr' where loop: "usgs_loop rt net tr ?cs = (es, tr')" by (cases "usgs_loop rt net tr ?cs")
  from usgs_loop_trace [of rt net tr ?cs] loop have tr': "tr' = tr @ map UsgsIdentify ?cs" by simp
  from usgs_loop_nth [of _ ?cs rt net tr] loop
  have es: "\<And>i. i < length ?cs \<Longrightarrow> es ! i =
      (case fst (getSingleElevationUSGS3DEP rt net (tr @ map UsgsIdentify (take i ?cs)) (?cs ! i)) of
         Inl e \<Rightarrow> JNum (Fin 0) | Inr v \<Rightarrow> v)"
    by simp
  let ?pts = "map (\<lambda>(index, coord).
                   \<lparr> longitude = fst coord, latitude = snd coord, elevation = es ! index,
                     distance = calculateCumulativeDistances rt ?cs ! index,
                     distanceKm = num_div (calculateCumulativeDistances rt ?cs ! index) (Fin 1000) \<rparr>)
                (enumerate 0 ?cs)"
  have 1: "getElevationFromUSGS3DEP rt net tr coordinates = (Inr ?pts, tr @ map UsgsIdentify ?cs)"
    by (simp add: getElevationFromUSGS3DEP_def loop tr' Let_def)
  have 2: "length ?pts = length ?cs" by simp
  have 3: "elevation (?pts ! i) =
      (case fst (getSingleElevationUSGS3DEP rt net (tr @ map UsgsIdentify (take i ?cs)) (?cs ! i)) of
         Inl e \<Rightarrow> JNum (Fin 0) | Inr v \<Rightarrow> v)" if "i < length ?cs" for i
    using that es [OF that] by (simp add: nth_enumerate_eq)
  from 1 2 3 show ?thesis by blast
qed

theorem per_point_failure_is_local_witness:
  "fst (getSingleElevationUSGS3DEP rt_plain net_first_point_fails [] (0, 0)) = Inl (UsgsHttpError (0, 0) 500)
   \<and> fst (getSingleElevationUSGS3DEP rt_plain net_first_point_fails [UsgsIdentify (0, 0)] (0, 1))
       = Inr (JNum (Fin 7))
   \<and> map elevation (projr (fst (getElevationFromUSGS3DEP rt_plain net_first_point_fails [] coords_two)))
       = [JNum (Fin 0), JNum (Fin 7)]"
proof -
  note s = sample_coords_two
  have a: "fst (getSingleElevationUSGS3DEP rt_plain net_first_point_fails [] (0, 0)) =
      Inl (UsgsHttpError (0, 0) 500)"
    by (simp add: getSingleElevationUSGS3DEP_def net_first_point_fails_def response_ok_def)
  have b: "fst (getSingleElevationUSGS3DEP rt_plain net_first_point_fails [UsgsIdentify (0, 0)] (0, 1)) =
      Inr (JNum (Fin 7))"
    by (simp add: getSingleElevationUSGS3DEP_def net_first_point_fails_def response_ok_def
        usgs_elevation_of_def bindE_def getProp_def propOf_def truthy_def)
  from per_point_failure_is_local [of rt_plain net_first_point_fails "[]" coords_two]
  obtain pts where
    r: "getElevationFromUSGS3DEP rt_plain net_first_point_fails [] coords_two =
          (Inr pts, [] @ map UsgsIdentify (sampleCoords coords_two))" and
    l: "length pts = length (sampleCoords coords_two)" and
    e: "\<And>i. i < length (sampleCoords coords_two) \<Longrightarrow> elevation (pts ! i) =
          (case fst (getSingleElevationUSGS3DEP rt_plain net_first_point_fails
                       ([] @ map UsgsIdentify (take i (sampleCoords coords_two)))
                       (sampleCoords coords_two ! i)) of
             Inl e \<Rightarrow> JNum (Fin 0) | Inr v \<Rightarrow> v)"
    by blast
  from e [of 0] a have e0: "elevation (pts ! 0) = JNum (Fin 0)" by (simp add: s)
  from e [of 1] b have e1: "elevation (pts ! 1) = JNum (Fin 7)" by (simp add: s)
  from l have "length pts = 2" by (simp add: s)
  then obtain p0 p1 where pts: "pts = [p0, p1]"
    by (cases pts; cases "tl pts") auto
  from e0 e1 have "map elevation pts = [JNum (Fin 0), JNum (Fin 7)]" by (simp add: pts)
  with r have c: "map elevation (projr (fst (getElevationFromUSGS3DEP rt_plain net_first_point_fails [] coords_two)))
       = [JNum (Fin 0), JNum (Fin 7)]" by simp
  from a b c show ?thesis by blast
qed

subsection \<open>Reading the primary provider's answer\<close>

text \<open>
  A \<open>value\<close> that is text is returned as it is: the first branch (line 161) takes every
  \<open>value\<close> that is not \<open>undefined\<close> or \<open>null\<close>, so the branch that parses the text of a
  \<open>"Pixel"\<close> answer (lines 170-178) is never reached.
\<close>

lemma string_value_never_parsed:
  assumes "getProp data ''error'' = Inr err" and "\<not> truthy err"
    and "propOf data ''value'' = JStr s"
  shows "usgs_elevation_of rt coordinate data = Inr (JStr s)"
  using assms by (simp add: usgs_elevation_of_def bindE_def Let_def)

text \<open>
  Claim C3 says that an answer with \<open>name == "Pixel"\<close> and a space-delimited text under
  \<open>value\<close> yields the first token parsed as a float. The code does not: on
  \<open>{"name": "Pixel", "value": "12.5 7"}\<close> the elevation is the text \<open>"12.5 7"\<close>, although
  \<open>parseFloat\<close> of the first token is 12.5.
\<close>

theorem pixel_string_value_is_returned_unparsed:
  "fst (getSingleElevationUSGS3DEP rt_decimal net_pixel_string [] (0, 0)) = Inr (JStr ''12.5 7'')
   \<and> parseFloat rt_decimal (takeWhile (\<lambda>c. c \<noteq> CHR '' '') ''12.5 7'') = Fin (25 / 2)"
  by (simp add: getSingleElevationUSGS3DEP_def net_pixel_string_def response_ok_def
      usgs_elevation_of_def bindE_def getProp_def propOf_def truthy_def rt_decimal_def Let_def)

subsection \<open>Falling back\<close>

text \<open>
  The attempt of the primary provider never fails, so \<open>getElevationProfile\<close> never sends a
  request to the fallback provider: after a call on at least two coordinates, the requests
  issued are the point queries of the sampled coordinates and nothing else.
\<close>

lemma fallback_never_requested:
  assumes "2 \<le> length cs"
  shows "snd (getElevationProfile rt net tr (Some cs)) = tr @ map UsgsIdentify (sampleCoords cs)"
proof -
  from primary_never_raises [of rt net tr cs] obtain pts where
    "getElevationFromUSGS3DEP rt net tr cs = (Inr pts, tr @ map UsgsIdentify (sampleCoords cs))" ..
  with assms show ?thesis by (simp add: getElevationProfile_def)
qed

lemma usgs_500:
  "getElevationFromUSGS3DEP rt_plain net_usgs_500 [] coords_two =
     (Inr [\<lparr> longitude = 0, latitude = 0, elevation = JNum (Fin 0), distance = Fin 0, distanceKm = Fin 0 \<rparr>,
           \<lparr> longitude = 0, latitude = 1, elevation = JNum (Fin 0),
             distance = haversineDistance rt_plain (0, 0) (0, 1),
             distanceKm = num_div (haversineDistance rt_plain (0, 0) (0, 1)) (Fin 1000) \<rparr>],
      [UsgsIdentify (0, 0), UsgsIdentify (0, 1)])"
  by (simp add: getElevationFromUSGS3DEP_def coords_two_def sample_two
      getSingleElevationUSGS3DEP_def net_usgs_500_def response_ok_def
      cumulative_two num_div_0 Let_def)

text \<open>
  Claim C1 says that the fallback provider is attempted, and its results used, when the
  primary provider fails for every sampled point. The code does not: where every point
  query is answered with status 500, the profile returned is built from the primary
  provider's placeholders (every elevation 0), and the only requests issued are the two
  point queries, although the fallback provider would have answered the same two sampled
  coordinates with the elevations 10 and 20.
\<close>

theorem every_point_failing_gives_zero_profile_without_fallback:
  "fst (getSingleElevationUSGS3DEP rt_plain net_usgs_500 [] (0, 0)) = Inl (UsgsHttpError (0, 0) 500)
   \<and> fst (getSingleElevationUSGS3DEP rt_plain net_usgs_500 [UsgsIdentify (0, 0)] (0, 1))
       = Inl (UsgsHttpError (0, 1) 500)
   \<and> getElevationProfile rt_plain net_usgs_500 [] (Some coords_two) =
     (Inr \<lparr> points =
              [\<lparr> longitude = 0, latitude = 0, elevation = JNum (Fin 0), distance = Fin 0, distanceKm = Fin 0 \<rparr>,
               \<lparr> longitude = 0, latitude = 1, elevation = JNum (Fin 0),
                 distance = haversineDistance rt_plain (0, 0) (0, 1),
                 distanceKm = num_div (haversineDistance rt_plain (0, 0) (0, 1)) (Fin 1000) \<rparr>],
            statistics =
              \<lparr> totalDistanceMeters = haversineDistance rt_plain (0, 0) (0, 1),
                totalDistanceKm = num_div (haversineDistance rt_plain (0, 0) (0, 1)) (Fin 1000),
                minElevation = Fin 0,
                maxElevation = Fin 0,
                elevationGain = Fin 0,
                elevationLoss = Fin 0,
                numberOfPoints = 2 \<rparr> \<rparr>,
      [UsgsIdentify (0, 0), UsgsIdentify (0, 1)])
   \<and> map elevation (projr (fst (getElevationFromOpenElevation rt_plain net_usgs_500 [] coords_two)))
       = [JNum (Fin 10), JNum (Fin 20)]"
proof -
  have a: "fst (getSingleElevationUSGS3DEP rt_plain net_usgs_500 [] (0, 0)) = Inl (UsgsHttpError (0, 0) 500)"
    by (simp add: getSingleElevationUSGS3DEP_def net_usgs_500_def response_ok_def)
  have b: "fst (getSingleElevationUSGS3DEP rt_plain net_usgs_500 [UsgsIdentify (0, 0)] (0, 1))
       = Inl (UsgsHttpError (0, 1) 500)"
    by (simp add: getSingleElevationUSGS3DEP_def net_usgs_500_def response_ok_def)
  have c: "getElevationProfile rt_plain net_usgs_500 [] (Some coords_two) =
     (Inr \<lparr> points =
              [\<lparr> longitude = 0, latitude = 0, elevation = JNum (Fin 0), distance = Fin 0, distanceKm = Fin 0 \<rparr>,
               \<lparr> longitude = 0, latitude = 1, elevation = JNum (Fin 0),
                 distance = haversineDistance rt_plain (0, 0) (0, 1),
                 distanceKm = num_div (haversineDistance rt_plain (0, 0) (0, 1)) (Fin 1000) \<rparr>],
            statistics =
              \<lparr> totalDistanceMeters = haversineDistance rt_plain (0, 0) (0, 1),
                totalDistanceKm = num_div (haversineDistance rt_plain (0, 0) (0, 1)) (Fin 1000),
                minElevation = Fin 0,
                maxElevation = Fin 0,
                elevationGain = Fin 0,
                elevationLoss = Fin 0,
                numberOfPoints = 2 \<rparr> \<rparr>,
      [UsgsIdentify (0, 0), UsgsIdentify (0, 1)])"
    unfolding getElevationProfile_def
    by (simp add: coords_two_length usgs_500 build_profile_def Math_min_def Math_max_def num_min2_def
        num_max2_def num_less_def toNumber_def calculateElevationGain_def
        calculateElevationLoss_def num_sub_def fl_0 Let_def)
  have d: "map elevation (projr (fst (getElevationFromOpenElevation rt_plain net_usgs_500 [] coords_two)))
       = [JNum (Fin 10), JNum (Fin 20)]"
    by (simp add: getElevationFromOpenElevation_def coords_two_def sample_two net_usgs_500_def
        response_ok_def getProp_def bindE_def cumulative_two num_div_0 Let_def)
  from a b c d show ?thesis by blast
qed

subsection \<open>The fallback provider\<close>

lemma getProp_error: "getProp v k = Inl e \<Longrightarrow> e = TypeError"
  by (cases v) (simp_all add: getProp_def)

lemma getProp_accessible:
  "v \<noteq> JUndefined \<Longrightarrow> v \<noteq> JNull \<Longrightarrow> getProp v k = Inr (propOf v k)"
  by (cases v) (simp_all add: getProp_def propOf_def)

lemma open_elevation_points_too_many:
  "index \<le> length sampledCoords \<Longrightarrow> length sampledCoords < index + length rs \<Longrightarrow>
   open_elevation_points sampledCoords distances index rs = Inl TypeError"
proof (induction rs arbitrary: index)
  case Nil
  then show ?case by simp
next
  case (Cons result rest)
  show ?case
  proof (cases "length sampledCoords \<le> index")
    case True
    then show ?thesis by simp
  next
    case False
    then have le: "Suc index \<le> length sampledCoords" by simp
    from Cons.prems have "length sampledCoords < Suc index + length rest" by simp
    with le have ih: "open_elevation_points sampledCoords distances (Suc index) rest = Inl TypeError"
      by (rule Cons.IH)
    show ?thesis
    proof (cases "getProp result ''elevation''")
      case (Inl e)
      then have "e = TypeError" by (rule getProp_error)
      with Inl False show ?thesis by (simp add: bindE_def)
    next
      case (Inr v)
      with False ih show ?thesis by (simp add: bindE_def)
    qed
  qed
qed

lemma open_elevation_points_fit:
  "index + length rs \<le> length sampledCoords \<Longrightarrow>
   \<forall>r \<in> set rs. r \<noteq> JUndefined \<and> r \<noteq> JNull \<Longrightarrow>
   open_elevation_points sampledCoords distances index rs =
     Inr (map (\<lambda>(i, r).
            \<lparr> longitude = fst (sampledCoords ! i),
              latitude = snd (sampledCoords ! i),
              elevation = propOf r ''elevation'',
              distance = distances ! i,
              distanceKm = num_div (distances ! i) (Fin 1000) \<rparr>)
          (enumerate index rs))"
proof (induction rs arbitrary: index)
  case Nil
  show ?case by simp
next
  case (Cons result rest)
  from Cons.prems have idx: "\<not> length sampledCoords \<le> index" by simp
  from Cons.prems have acc: "getProp result ''elevation'' = Inr (propOf result ''elevation'')"
    by (simp add: getProp_accessible)
  from Cons.prems have "Suc index + length rest \<le> length sampledCoords"
    and "\<forall>r \<in> set rest. r \<noteq> JUndefined \<and> r \<noteq> JNull" by simp_all
  then have ih: "open_elevation_points sampledCoords distances (Suc index) rest =
     Inr (map (\<lambda>(i, r).
            \<lparr> longitude = fst (sampledCoords ! i),
              latitude = snd (sampledCoords ! i),
              elevation = propOf r ''elevation'',
              distance = distances ! i,
              distanceKm = num_div (distances ! i) (Fin 1000) \<rparr>)
          (enumerate (Suc index) rest))"
    by (rule Cons.IH)
  show ?case by (simp add: idx acc ih bindE_def)
qed

text \<open>
  Claim C2, amended. For a response of the batch provider with a success status and a
  \<open>results\<close> array: if the array is longer than the sampled coordinates, the attempt
  fails (with the \<open>TypeError\<close> of reading a coordinate that is not there); if it is not
  longer, and be it shorter, and its entries are not \<open>null\<close>, the attempt succeeds with one
  sample per result, paired in order with the first sampled coordinates and their
  cumulative distances.
\<close>

theorem fallback_result_count:
  assumes "net tr (OpenElevationLookup (map (\<lambda>coord. (snd coord, fst coord)) (sampleCoords coordinates)))
             = Response status (Some data)"
    and "response_ok status"
    and "getProp data ''results'' = Inr (JArr rs)"
  shows "(length (sampleCoords coordinates) < length rs \<longrightarrow>
            fst (getElevationFromOpenElevation rt net tr coordinates) = Inl TypeError)
       \<and> (length rs \<le> length (sampleCoords coordinates)
            \<and> (\<forall>r \<in> set rs. r \<noteq> JUndefined \<and> r \<noteq> JNull) \<longrightarrow>
          (\<exists>pts. fst (getElevationFromOpenElevation rt net tr coordinates) = Inr pts
             \<and> length pts = length rs
             \<and> (\<forall>i. i < length rs \<longrightarrow>
                   elevation (pts ! i) = propOf (rs ! i) ''elevation''
                 \<and> longitude (pts ! i) = fst (sampleCoords coordinates ! i)
                 \<and> latitude (pts ! i) = snd (sampleCoords coordinates ! i)
                 \<and> distance (pts ! i) = calculateCumulativeDistances rt (sampleCoords coordinates) ! i)))"
proof -
  let ?cs = "sampleCoords coordinates"
  let ?ds = "calculateCumulativeDistances rt ?cs"
  have run: "fst (getElevationFromOpenElevation rt net tr coordinates) =
      open_elevation_points ?cs ?ds 0 rs"
    using assms by (simp add: getElevationFromOpenElevation_def Let_def bindE_def)
  have 1: "fst (getElevationFromOpenElevation rt net tr coordinates) = Inl TypeError"
    if "length ?cs < length rs"
    unfolding run using that by (simp add: open_elevation_points_too_many)
  have 2: "\<exists>pts. fst (getElevationFromOpenElevation rt net tr coordinates) = Inr pts
             \<and> length pts = length rs
             \<and> (\<forall>i. i < length rs \<longrightarrow>
                   elevation (pts ! i) = propOf (rs ! i) ''elevation''
                 \<and> longitude (pts ! i) = fst (?cs ! i)
                 \<and> latitude (pts ! i) = snd (?cs ! i)
                 \<and> distance (pts ! i) = ?ds ! i)"
    if "length rs \<le> length ?cs \<and> (\<forall>r \<in> set rs. r \<noteq> JUndefined \<and> r \<noteq> JNull)"
  proof -
    from that have "0 + length rs \<le> length ?cs" and "\<forall>r \<in> set rs. r \<noteq> JUndefined \<and> r \<noteq> JNull"
      by simp_all
    from open_elevation_points_fit [OF this, of ?ds]
    show ?thesis unfolding run by (simp add: nth_enumerate_eq)
  qed
  from 1 2 show ?thesis by blast
qed

theorem fallback_result_count_witness:
  "fst (getElevationFromOpenElevation rt_plain net_long_results [] coords_two) = Inl TypeError
   \<and> map elevation (projr (fst (getElevationFromOpenElevation rt_plain net_short_results [] coords_two)))
       = [JNum (Fin 7)]"
proof -
  note s = sample_coords_two
  let ?long = "[JObj [(''elevation'', JNum (Fin 7))], JObj [(''elevation'', JNum (Fin 8))],
             JObj [(''elevation'', JNum (Fin 9))]]"
  let ?short = "[JObj [(''elevation'', JNum (Fin 7))]]"
  have ok: "response_ok 200" by (simp add: response_ok_def)
  have l1: "net_long_results [] (OpenElevationLookup (map (\<lambda>coord. (snd coord, fst coord)) (sampleCoords coords_two)))
      = Response 200 (Some (JObj [(''results'', JArr ?long)]))"
    by (simp add: net_long_results_def)
  have l2: "getProp (JObj [(''results'', JArr ?long)]) ''results'' = Inr (JArr ?long)"
    by (simp add: getProp_def)
  from fallback_result_count [of net_long_results "[]" coords_two 200 _ ?long, OF l1 ok l2]
  have a: "fst (getElevationFromOpenElevation rt_plain net_long_results [] coords_two) = Inl TypeError"
    by (simp add: s)
  have s1: "net_short_results [] (OpenElevationLookup (map (\<lambda>coord. (snd coord, fst coord)) (sampleCoords coords_two)))
      = Response 200 (Some (JObj [(''results'', JArr ?short)]))"
    by (simp add: net_short_results_def)
  have s2: "getProp (JObj [(''results'', JArr ?short)]) ''results'' = Inr (JArr ?short)"
    by (simp add: getProp_def)
  from fallback_result_count [of net_short_results "[]" coords_two 200 _ ?short, OF s1 ok s2]
  obtain pts where p: "fst (getElevationFromOpenElevation rt_plain net_short_results [] coords_two) = Inr pts"
    and l: "length pts = length ?short"
    and e: "elevation (pts ! 0) = propOf (?short ! 0) ''elevation''"
    by (auto simp: s)
  from l obtain p0 where pts: "pts = [p0]" by (cases pts) auto
  from e have "map elevation pts = [JNum (Fin 7)]"
    by (simp add: pts propOf_def getProp_def)
  with p have b: "map elevation (projr (fst (getElevationFromOpenElevation rt_plain net_short_results [] coords_two)))
       = [JNum (Fin 7)]" by simp
  from a b show ?thesis by blast
qed

text \<open>
  Claim C2 as stated fails on a response with fewer results than sampled coordinates:
  one result for two coordinates gives a profile of one sample.
\<close>

theorem fallback_short_results_counterexample:
  "length [JObj [(''elevation'', JNum (Fin 7))]] \<noteq> length (sampleCoords coords_two)
   \<and> getElevationFromOpenElevation rt_plain net_short_results [] coords_two =
       (Inr [\<lparr> longitude = 0, latitude = 0, elevation = JNum (Fin 7), distance = Fin 0, distanceKm = Fin 0 \<rparr>],
        [OpenElevationLookup [(0, 0), (1, 0)]])"
  by (simp add: getElevationFromOpenElevation_def coords_two_def sample_two net_short_results_def
      response_ok_def getProp_def bindE_def cumulative_two num_div_0 Let_def)

end
